theory Spec2Isabelle
  imports Main "HOL-Library.Word" "HOL-Library.Multiset"
begin

section \<open>Nexus: backend registry, round-robin selection, health checks, dispatch\<close>

text \<open>
  A shallow embedding of the Go packages \<open>backend\<close>, \<open>pool\<close>, \<open>health\<close> and of the
  request handler of \<open>main\<close>. The embedding is sequential: one operation runs at a time,
  so the mutexes and the atomic operations of the source are the plain reads and writes
  they protect.

  Go values of type \<open>*Backend\<close> are addresses into a store of \<open>Backend\<close> structs. The
  store is a list, an address is an index into it, and an address outside the store
  stands for the nil pointer: dereferencing it is the run-time panic of Go. The fields
  \<open>mux\<close> and \<open>ReverseProxy\<close> of the struct are not stored: the proxy of a backend is
  determined by the backend's address and URL (see \<open>RoundTrip\<close> and \<open>ServeHTTP\<close>).
\<close>

subsection \<open>Errors, events, store\<close>

datatype error =
    NilPointerDereference
  | IndexOutOfRange
  | DivideByZero
  | UrlParseError

type_synonym addr = nat

record Backend =
  URL :: string
  Alive :: bool

record ServerPool =
  backends :: "addr list"
  current :: "64 word"

text \<open>
  What the program does besides changing the store is kept in a trace, in the order it
  happens: the lines given to \<open>log.Printf\<close> (one constructor for each format string of
  the source, with its arguments), every call of \<open>SetAlive\<close>, and every exchange the
  underlying transport is asked to make with a backend.
\<close>

datatype neterr = ConnectionRefused | ConnectionReset | IOTimeout

datatype event =
    SetAliveCall addr bool
  | Exchange string
  | LogPassiveFailed string neterr
  | LogPassive5xx string int
  | LogProxyError neterr
  | LogCreated string
  | LogAdded string
  | LogRecovered string
  | LogFailedHealthCheck string
  | LogNoBackendAvailable
  | LogMarkedDown string nat
  | LogForward string nat
  | LogAllRetriesFailed

record world =
  heap :: "Backend list"
  spool :: ServerPool
  trace :: "event list"

definition deref :: "world \<Rightarrow> addr \<Rightarrow> error + Backend" where
  "deref w a = (if a < length (heap w) then Inr (heap w ! a) else Inl NilPointerDereference)"

definition emit :: "event \<Rightarrow> world \<Rightarrow> world" where
  "emit e w = w\<lparr>trace := trace w @ [e]\<rparr>"

subsection \<open>Package backend: liveness accessors\<close>

definition SetAlive :: "addr \<Rightarrow> bool \<Rightarrow> world \<Rightarrow> error + world" where
  "SetAlive b alive w =
     (case deref w b of
        Inl e \<Rightarrow> Inl e
      | Inr be \<Rightarrow> Inr (emit (SetAliveCall b alive) (w\<lparr>heap := (heap w)[b := be\<lparr>Alive := alive\<rparr>]\<rparr>)))"

definition IsAlive :: "world \<Rightarrow> addr \<Rightarrow> error + bool" where
  "IsAlive w b = (case deref w b of Inl e \<Rightarrow> Inl e | Inr be \<Rightarrow> Inr (Alive be))"

subsection \<open>Package pool\<close>

text \<open>
  \<open>len(s.backends)\<close>, \<open>next\<close>, \<open>i\<close> and \<open>idx\<close> are Go \<open>int\<close>s (64 bits, signed); the
  cursor \<open>current\<close> is a \<open>uint64\<close> and wraps. A slice of pointers has fewer than
  \<open>2 ^ 62\<close> elements (its elements are 8 bytes wide in a 64-bit address space), so
  \<open>next + i\<close>, a sum of two indices, never overflows an \<open>int\<close>: the indices are
  natural numbers here, and the bound is part of \<open>pool_ok\<close> below. The conversion
  \<open>uint64(poolSize)\<close> is \<open>word_of_nat\<close>. The unsigned remainder panics on a zero
  divisor, as Go's does.
\<close>

definition umod :: "64 word \<Rightarrow> 64 word \<Rightarrow> error + 64 word" where
  "umod a b = (if b = 0 then Inl DivideByZero else Inr (a mod b))"

definition AddBackend :: "addr \<Rightarrow> world \<Rightarrow> world" where
  "AddBackend b w = w\<lparr>spool := (spool w)\<lparr>backends := backends (spool w) @ [b]\<rparr>\<rparr>"

definition GetPoolSize :: "world \<Rightarrow> nat" where
  "GetPoolSize w = length (backends (spool w))"

definition NextIndex :: "world \<Rightarrow> error + (nat \<times> world)" where
  "NextIndex w =
     (let poolSize = length (backends (spool w)) in
      if poolSize = 0 then Inr (0, w)
      else
        let c = current (spool w) + 1;
            w1 = w\<lparr>spool := (spool w)\<lparr>current := c\<rparr>\<rparr>
        in case umod c (word_of_nat poolSize) of
             Inl e \<Rightarrow> Inl e
           | Inr r \<Rightarrow> Inr (unat r, w1))"

text \<open>
  The scan of \<open>GetNextPeer\<close>: the loop variable \<open>i\<close> runs through the list given as
  last argument, \<open>[0..<poolSize]\<close> in the call. The remainder \<open>(next + i) % poolSize\<close>
  panics on a zero divisor and the read \<open>s.backends[idx]\<close> is bounds-checked. The result is the index and the address of the first backend found
  alive, or nothing once the list is exhausted.
\<close>

fun scan :: "world \<Rightarrow> nat \<Rightarrow> nat \<Rightarrow> nat list \<Rightarrow> error + (nat \<times> addr) option" where
  "scan w next poolSize [] = Inr None"
| "scan w next poolSize (i # rest) =
     (if poolSize = 0 then Inl DivideByZero
      else
        let idx = (next + i) mod poolSize in
        if idx < length (backends (spool w)) then
          (let backend = backends (spool w) ! idx in
           case IsAlive w backend of
             Inl e \<Rightarrow> Inl e
           | Inr True \<Rightarrow> Inr (Some (idx, backend))
           | Inr False \<Rightarrow> scan w next poolSize rest)
        else Inl IndexOutOfRange)"

definition GetNextPeer :: "world \<Rightarrow> error + (addr option \<times> world)" where
  "GetNextPeer w =
     (let poolSize = length (backends (spool w)) in
      if poolSize = 0 then Inr (None, w)
      else
        case NextIndex w of
          Inl e \<Rightarrow> Inl e
        | Inr (next, w1) \<Rightarrow>
            (case scan w1 next poolSize [0..<poolSize] of
               Inl e \<Rightarrow> Inl e
             | Inr None \<Rightarrow> Inr (None, w1)
             | Inr (Some (idx, backend)) \<Rightarrow>
                 Inr (Some backend, w1\<lparr>spool := (spool w1)\<lparr>current := word_of_nat idx\<rparr>\<rparr>)))"

definition GetBackends :: "world \<Rightarrow> addr list" where
  "GetBackends w = backends (spool w)"

text \<open>
  \<open>N\<close> sequential calls of \<open>GetNextPeer\<close>, with nothing else running in between;
  the results in the order of the calls.
\<close>

fun GetNextPeer_times :: "nat \<Rightarrow> world \<Rightarrow> error + (addr option list \<times> world)" where
  "GetNextPeer_times 0 w = Inr ([], w)"
| "GetNextPeer_times (Suc m) w =
     (case GetNextPeer w of
        Inl e \<Rightarrow> Inl e
      | Inr (r, w1) \<Rightarrow>
          (case GetNextPeer_times m w1 of
             Inl e \<Rightarrow> Inl e
           | Inr (rs, w2) \<Rightarrow> Inr (r # rs, w2)))"

definition all_alive :: "world \<Rightarrow> bool" where
  "all_alive w \<longleftrightarrow> (\<forall>b \<in> set (backends (spool w)). Alive (heap w ! b))"

definition all_down :: "world \<Rightarrow> bool" where
  "all_down w \<longleftrightarrow> (\<forall>b \<in> set (backends (spool w)). \<not> Alive (heap w ! b))"

subsection \<open>Package backend: construction and the passive health check\<close>

text \<open>
  \<open>url.Parse\<close> belongs to the Go standard library; it is the parameter \<open>parse\<close>. A
  parsed URL is kept as the text \<open>URL.String()\<close> renders. \<open>NewBackend\<close> allocates the
  struct at the first free address of the store.
\<close>

definition NewBackend :: "(string \<Rightarrow> error + string) \<Rightarrow> string \<Rightarrow> world \<Rightarrow> error + (addr \<times> world)" where
  "NewBackend parse urlStr w =
     (case parse urlStr of
        Inl err \<Rightarrow> Inl err
      | Inr parsedURL \<Rightarrow>
          (let backend = length (heap w);
               w1 = w\<lparr>heap := heap w @ [\<lparr>URL = parsedURL, Alive = True\<rparr>]\<rparr>
           in Inr (backend, emit (LogCreated parsedURL) w1)))"

text \<open>
  The network is a parameter: what the default \<open>http.Transport\<close> answers when it is
  asked for an exchange with the server at a URL, either a transport error or a
  response. The request itself is not represented.
\<close>

record Response =
  StatusCode :: int
  Header :: "(string \<times> string) list"
  Body :: string

type_synonym network = "string \<Rightarrow> neterr + Response"

text \<open>
  \<open>passiveHealthCheckTransport.RoundTrip\<close> of the transport that \<open>NewBackend\<close>
  installs in the proxy of backend \<open>b\<close>: its field \<open>backend\<close> is \<open>b\<close>, and the requests
  it sees were directed to the URL of \<open>b\<close> by the proxy. Such a transport exists only
  for a backend that \<open>NewBackend\<close> has allocated, so looking up that URL does not fail
  in a program. The result is Go's pair \<open>(resp, err)\<close> as a sum.
\<close>

definition RoundTrip :: "network \<Rightarrow> addr \<Rightarrow> world \<Rightarrow> error + ((neterr + Response) \<times> world)" where
  "RoundTrip net b w =
     (case deref w b of
        Inl e \<Rightarrow> Inl e
      | Inr be \<Rightarrow>
          (let w0 = emit (Exchange (URL be)) w in
           case net (URL be) of
             Inl err \<Rightarrow>
               (case IsAlive w0 b of
                  Inl e \<Rightarrow> Inl e
                | Inr True \<Rightarrow>
                    (case SetAlive b False (emit (LogPassiveFailed (URL be) err) w0) of
                       Inl e \<Rightarrow> Inl e
                     | Inr w1 \<Rightarrow> Inr (Inl err, w1))
                | Inr False \<Rightarrow> Inr (Inl err, w0))
           | Inr resp \<Rightarrow>
               if StatusCode resp \<ge> 500 then
                 (case SetAlive b False (emit (LogPassive5xx (URL be) (StatusCode resp)) w0) of
                    Inl e \<Rightarrow> Inl e
                  | Inr w1 \<Rightarrow> Inr (Inr resp, w1))
               else Inr (Inr resp, w0)))"

subsection \<open>Package health\<close>

text \<open>
  \<open>isBackendAlive\<close> dials the host of a URL; its answer is the parameter
  \<open>isBackendAlive\<close>. \<open>checkBackend\<close> is the body of the loop of \<open>checkHealth\<close> after
  the probe has answered \<open>alive\<close>; \<open>checkHealth_loop\<close> is the loop over the snapshot
  that \<open>GetBackends\<close> returned.
\<close>

definition checkBackend :: "bool \<Rightarrow> addr \<Rightarrow> world \<Rightarrow> error + world" where
  "checkBackend alive backend w =
     (case IsAlive w backend of
        Inl e \<Rightarrow> Inl e
      | Inr wasAlive \<Rightarrow>
          if alive \<noteq> wasAlive then
            (case deref w backend of
               Inl e \<Rightarrow> Inl e
             | Inr be \<Rightarrow>
                 SetAlive backend alive
                   (emit (if alive then LogRecovered (URL be) else LogFailedHealthCheck (URL be)) w))
          else Inr w)"

fun checkHealth_loop :: "(string \<Rightarrow> bool) \<Rightarrow> addr list \<Rightarrow> world \<Rightarrow> error + world" where
  "checkHealth_loop isBackendAlive [] w = Inr w"
| "checkHealth_loop isBackendAlive (backend # rest) w =
     (case deref w backend of
        Inl e \<Rightarrow> Inl e
      | Inr be \<Rightarrow>
          (case checkBackend (isBackendAlive (URL be)) backend w of
             Inl e \<Rightarrow> Inl e
           | Inr w1 \<Rightarrow> checkHealth_loop isBackendAlive rest w1))"

definition checkHealth :: "(string \<Rightarrow> bool) \<Rightarrow> world \<Rightarrow> error + world" where
  "checkHealth isBackendAlive w = checkHealth_loop isBackendAlive (GetBackends w) w"

subsection \<open>Package main: start-up and the request handler\<close>

definition maxRetries :: nat where
  "maxRetries = 3"

definition backendURLs :: "string list" where
  "backendURLs = [''http://localhost:8081'', ''http://localhost:8082'', ''http://localhost:8083'']"

definition init_world :: world where
  "init_world = \<lparr>heap = [], spool = \<lparr>backends = [], current = 0\<rparr>, trace = []\<rparr>"

text \<open>The loop of \<open>main\<close> that fills the pool; \<open>log.Fatalf\<close> ends the program with the error.\<close>

fun add_backends :: "(string \<Rightarrow> error + string) \<Rightarrow> string list \<Rightarrow> world \<Rightarrow> error + world" where
  "add_backends parse [] w = Inr w"
| "add_backends parse (urlStr # rest) w =
     (case NewBackend parse urlStr w of
        Inl err \<Rightarrow> Inl err
      | Inr (backend, w1) \<Rightarrow> add_backends parse rest (emit (LogAdded urlStr) (AddBackend backend w1)))"

text \<open>
  The \<open>http.ResponseWriter\<close> of a request: the headers set so far, the status once it
  is written, the body. \<open>Header_Set\<close>, \<open>http_Error\<close> and \<open>ServeHTTP\<close> belong to the Go
  standard library. \<open>ServeHTTP\<close> of the \<open>httputil.ReverseProxy\<close> of backend \<open>b\<close> asks
  its transport for one exchange; since \<open>NewBackend\<close> sets neither an error handler nor
  a response modifier, an error is logged and answered with status 502 and no body, and
  a response is relayed: its headers are added to the ones already set, its status and
  body are copied.
\<close>

record ResponseWriter =
  rw_header :: "(string \<times> string) list"
  rw_status :: "int option"
  rw_body :: string

definition Header_Set :: "string \<Rightarrow> string \<Rightarrow> ResponseWriter \<Rightarrow> ResponseWriter" where
  "Header_Set k v rw = rw\<lparr>rw_header := filter (\<lambda>kv. fst kv \<noteq> k) (rw_header rw) @ [(k, v)]\<rparr>"

definition http_Error :: "ResponseWriter \<Rightarrow> string \<Rightarrow> int \<Rightarrow> ResponseWriter" where
  "http_Error rw msg code =
     (Header_Set ''X-Content-Type-Options'' ''nosniff''
        (Header_Set ''Content-Type'' ''text/plain; charset=utf-8'' rw))
       \<lparr>rw_status := Some code, rw_body := msg @ [CHR 0x0A]\<rparr>"

definition ServeHTTP :: "network \<Rightarrow> addr \<Rightarrow> ResponseWriter \<Rightarrow> world \<Rightarrow> error + (ResponseWriter \<times> world)" where
  "ServeHTTP net b rw w =
     (case RoundTrip net b w of
        Inl e \<Rightarrow> Inl e
      | Inr (Inl err, w1) \<Rightarrow> Inr (rw\<lparr>rw_status := Some 502\<rparr>, emit (LogProxyError err) w1)
      | Inr (Inr resp, w1) \<Rightarrow>
          Inr (rw\<lparr>rw_header := rw_header rw @ Header resp,
                  rw_status := Some (StatusCode resp),
                  rw_body := Body resp\<rparr>, w1))"

text \<open>
  The handler's loop \<open>for attempts < maxRetries\<close>, from the value of \<open>attempts\<close> at
  the loop test. The result is the response written to the client, the final value of
  \<open>attempts\<close> (one more for every call of \<open>GetNextPeer\<close>) and the new state.
  \<open>time.Sleep\<close> changes nothing here. The request's method, path and start time, which
  only the log lines mention, are left out.
\<close>

function handler_loop :: "network \<Rightarrow> nat \<Rightarrow> ResponseWriter \<Rightarrow> world \<Rightarrow> error + (ResponseWriter \<times> nat \<times> world)" where
  "handler_loop net attempts rw w =
     (if attempts < maxRetries then
        (case GetNextPeer w of
           Inl e \<Rightarrow> Inl e
         | Inr (None, w1) \<Rightarrow>
             if attempts + 1 < maxRetries then handler_loop net (attempts + 1) rw w1
             else Inr (http_Error rw ''Service Unavailable'' 503, attempts + 1,
                       emit LogNoBackendAvailable w1)
         | Inr (Some peer, w1) \<Rightarrow>
             (case IsAlive w1 peer of
                Inl e \<Rightarrow> Inl e
              | Inr False \<Rightarrow>
                  (case deref w1 peer of
                     Inl e \<Rightarrow> Inl e
                   | Inr pe \<Rightarrow>
                       handler_loop net (attempts + 1) rw
                         (emit (LogMarkedDown (URL pe) (attempts + 1)) w1))
              | Inr True \<Rightarrow>
                  (case deref w1 peer of
                     Inl e \<Rightarrow> Inl e
                   | Inr pe \<Rightarrow>
                       (let w2 = emit (LogForward (URL pe) (attempts + 1)) w1;
                            rw1 = Header_Set ''X-Backend-Server'' (URL pe)
                                    (Header_Set ''X-Forwarded-By'' ''Nexus'' rw)
                        in case ServeHTTP net peer rw1 w2 of
                             Inl e \<Rightarrow> Inl e
                           | Inr (rw2, w3) \<Rightarrow> Inr (rw2, attempts + 1, w3)))))
      else Inr (http_Error rw ''Service Unavailable'' 503, attempts,
                emit LogAllRetriesFailed w))"
  by pat_completeness auto
termination
  by (relation "measure (\<lambda>(net, attempts, rw, w). maxRetries - attempts)") auto

declare handler_loop.simps [simp del]

definition handler :: "network \<Rightarrow> world \<Rightarrow> error + (ResponseWriter \<times> nat \<times> world)" where
  "handler net w = handler_loop net 0 \<lparr>rw_header = [], rw_status = None, rw_body = []\<rparr> w"

text \<open>The exchanges with backends that a trace records.\<close>

definition forwards :: "event list \<Rightarrow> string list" where
  "forwards tr = concat (map (\<lambda>e. case e of Exchange u \<Rightarrow> [u] | _ \<Rightarrow> []) tr)"

text \<open>
  A pool as a running program can hold it: fewer than \<open>2 ^ 62\<close> entries, none of them
  nil.
\<close>

definition pool_ok :: "world \<Rightarrow> bool" where
  "pool_ok w \<longleftrightarrow>
     length (backends (spool w)) < 2 ^ 62 \<and>
     (\<forall>b \<in> set (backends (spool w)). b < length (heap w))"

text \<open>The endpoints of the registered backends, in the order of the registry.\<close>

definition pool_urls :: "world \<Rightarrow> string list" where
  "pool_urls w = map (\<lambda>b. URL (heap w ! b)) (backends (spool w))"

text \<open>
  Two predicates for stating properties: every registered backend answers
  \<open>IsAlive\<close> with true; the liveness stored for a backend is what the probe of its URL
  answers.
\<close>

definition pool_fresh :: "world \<Rightarrow> bool" where
  "pool_fresh w \<longleftrightarrow> (\<forall>b \<in> set (backends (spool w)). IsAlive w b = Inr True)"

definition probe_agrees :: "(string \<Rightarrow> bool) \<Rightarrow> world \<Rightarrow> addr \<Rightarrow> bool" where
  "probe_agrees isBackendAlive w b \<longleftrightarrow> Alive (heap w ! b) = isBackendAlive (URL (heap w ! b))"

text \<open>
  The entries of a registry without the repetitions: each address where it occurs first.
  For a registry of distinct backends this is the registry itself.
\<close>

fun first_occurrences :: "addr list \<Rightarrow> addr list" where
  "first_occurrences [] = []"
| "first_occurrences (b # bs) = b # filter (\<lambda>c. c \<noteq> b) (first_occurrences bs)"

text \<open>
  Two networks for the scenarios below: one where the server at port 8082 refuses
  connections and every other server answers 200, one where every server answers 503.
\<close>

definition net_8082_refused :: network where
  "net_8082_refused u =
     (if u = ''http://localhost:8082'' then Inl ConnectionRefused
      else Inr \<lparr>StatusCode = 200, Header = [(''Server'', ''backend'')], Body = ''ok''\<rparr>)"

definition net_all_503 :: network where
  "net_all_503 u = Inr \<lparr>StatusCode = 503, Header = [(''Server'', ''backend'')], Body = ''busy''\<rparr>"

section \<open>Properties\<close>

subsection \<open>Liveness accessors\<close>

lemma deref_ok: "a < length (heap w) \<Longrightarrow> deref w a = Inr (heap w ! a)"
  by (simp add: deref_def)

lemma IsAlive_ok: "a < length (heap w) \<Longrightarrow> IsAlive w a = Inr (Alive (heap w ! a))"
  by (simp add: IsAlive_def deref_ok)

lemma IsAlive_True_iff:
  "IsAlive w a = Inr True \<longleftrightarrow> a < length (heap w) \<and> Alive (heap w ! a)"
  by (auto simp: IsAlive_def deref_def)

lemma IsAlive_heap_cong: "heap w' = heap w \<Longrightarrow> IsAlive w' a = IsAlive w a"
  by (simp add: IsAlive_def deref_def)

lemma SetAlive_ok:
  "b < length (heap w) \<Longrightarrow>
   SetAlive b alive w =
     Inr (emit (SetAliveCall b alive) (w\<lparr>heap := (heap w)[b := (heap w ! b)\<lparr>Alive := alive\<rparr>]\<rparr>))"
  by (simp add: SetAlive_def deref_ok)

text \<open>
  C9. Passive marking is idempotent: \<open>SetAlive(false)\<close> on a backend that is already
  DOWN returns normally and leaves the whole store as it was (the backend's liveness is
  still false, its URL and every other backend are untouched), and the pool with its
  cursor too. Only the trace records that the call happened.
\<close>

theorem SetAlive_false_idempotent:
  assumes "b < length (heap w)" and "\<not> Alive (heap w ! b)"
  shows "\<exists>w'. SetAlive b False w = Inr w' \<and> heap w' = heap w \<and> spool w' = spool w
           \<and> trace w' = trace w @ [SetAliveCall b False]
           \<and> IsAlive w' b = Inr False"
proof -
  have same: "(heap w ! b)\<lparr>Alive := False\<rparr> = heap w ! b"
    using assms(2) by simp
  have "SetAlive b False w = Inr (emit (SetAliveCall b False) (w\<lparr>heap := (heap w)[b := heap w ! b]\<rparr>))"
    using assms(1) same by (simp add: SetAlive_def deref_ok)
  then show ?thesis
    using assms by (simp add: emit_def IsAlive_def deref_def)
qed

theorem SetAlive_false_idempotent_witness:
  "SetAlive 1 False
     \<lparr>heap = [\<lparr>URL = ''http://localhost:8081'', Alive = True\<rparr>,
              \<lparr>URL = ''http://localhost:8082'', Alive = False\<rparr>],
      spool = \<lparr>backends = [0, 1], current = 0\<rparr>, trace = []\<rparr>
   = Inr \<lparr>heap = [\<lparr>URL = ''http://localhost:8081'', Alive = True\<rparr>,
                  \<lparr>URL = ''http://localhost:8082'', Alive = False\<rparr>],
          spool = \<lparr>backends = [0, 1], current = 0\<rparr>, trace = [SetAliveCall 1 False]\<rparr>"
  using SetAlive_false_idempotent
    [of 1 "\<lparr>heap = [\<lparr>URL = ''http://localhost:8081'', Alive = True\<rparr>,
                    \<lparr>URL = ''http://localhost:8082'', Alive = False\<rparr>],
            spool = \<lparr>backends = [0, 1], current = 0\<rparr>, trace = []\<rparr>"]
  by (simp add: SetAlive_def deref_def emit_def)

subsection \<open>Selection: the cursor and the scan\<close>

lemma scan_world_cong:
  "heap w' = heap w \<Longrightarrow> backends (spool w') = backends (spool w) \<Longrightarrow>
   scan w' next n js = scan w next n js"
  by (induction js) (simp_all add: IsAlive_heap_cong [of w' w] Let_def split: sum.splits bool.splits)

lemma unat_word_of_nat_small: "n < 2 ^ 64 \<Longrightarrow> unat (word_of_nat n :: 64 word) = n"
  by (simp add: unat_of_nat)

lemma umod_pool_size:
  assumes "0 < n" and "n < 2 ^ 64"
  shows "umod c (word_of_nat n) = Inr (c mod word_of_nat n) \<and> unat (c mod word_of_nat n) = unat c mod n"
proof -
  have u: "unat (word_of_nat n :: 64 word) = n"
    using assms(2) by (rule unat_word_of_nat_small)
  then have "(word_of_nat n :: 64 word) \<noteq> 0"
    using assms(1) by (metis unat_0 less_numeral_extra(3))
  then show ?thesis
    using u by (simp add: umod_def unat_mod)
qed

lemma NextIndex_nonempty:
  assumes "0 < length (backends (spool w))" and "length (backends (spool w)) < 2 ^ 64"
  shows "NextIndex w =
           Inr (unat (current (spool w) + 1) mod length (backends (spool w)),
                w\<lparr>spool := (spool w)\<lparr>current := current (spool w) + 1\<rparr>\<rparr>)"
  using assms umod_pool_size [of "length (backends (spool w))" "current (spool w) + 1"]
  by (simp add: NextIndex_def Let_def)

lemma NextIndex_heap:
  "NextIndex w = Inr (k, w1) \<Longrightarrow> heap w1 = heap w \<and> backends (spool w1) = backends (spool w)"
  by (auto simp: NextIndex_def Let_def split: if_splits sum.splits)

lemma scan_find:
  assumes "pool_ok w" and "0 < length (backends (spool w))"
  shows "scan w next (length (backends (spool w))) js =
           Inr (map_option (\<lambda>i. ((next + i) mod length (backends (spool w)),
                                  backends (spool w) ! ((next + i) mod length (backends (spool w)))))
                  (find (\<lambda>i. Alive (heap w ! (backends (spool w) ! ((next + i) mod length (backends (spool w)))))) js))"
proof (induction js)
  case Nil
  show ?case by simp
next
  case (Cons i js)
  let ?n = "length (backends (spool w))"
  have idx: "(next + i) mod ?n < ?n"
    using assms(2) by simp
  then have "backends (spool w) ! ((next + i) mod ?n) < length (heap w)"
    using assms(1) by (simp add: pool_ok_def)
  then have "IsAlive w (backends (spool w) ! ((next + i) mod ?n))
               = Inr (Alive (heap w ! (backends (spool w) ! ((next + i) mod ?n))))"
    by (rule IsAlive_ok)
  then show ?case
    using idx Cons.IH assms(2) by (simp add: Let_def)
qed

lemma scan_Some_alive:
  "scan w next n js = Inr (Some (idx, b)) \<Longrightarrow>
     IsAlive w b = Inr True \<and> idx < length (backends (spool w)) \<and> b = backends (spool w) ! idx
     \<and> (\<exists>i \<in> set js. idx = (next + i) mod n)"
  by (induction js) (auto simp: Let_def split: if_splits sum.splits bool.splits)

lemma GetNextPeer_find:
  assumes "pool_ok w" and "0 < length (backends (spool w))"
  shows "GetNextPeer w =
    (let n = length (backends (spool w));
         k = unat (current (spool w) + 1) mod n;
         w1 = w\<lparr>spool := (spool w)\<lparr>current := current (spool w) + 1\<rparr>\<rparr>
     in case find (\<lambda>i. Alive (heap w ! (backends (spool w) ! ((k + i) mod n)))) [0..<n] of
          None \<Rightarrow> Inr (None, w1)
        | Some i \<Rightarrow> Inr (Some (backends (spool w) ! ((k + i) mod n)),
                         w\<lparr>spool := (spool w)\<lparr>current := word_of_nat ((k + i) mod n)\<rparr>\<rparr>))"
proof -
  let ?n = "length (backends (spool w))"
  let ?w1 = "w\<lparr>spool := (spool w)\<lparr>current := current (spool w) + 1\<rparr>\<rparr>"
  have small: "?n < 2 ^ 64"
  proof -
    have "?n < 2 ^ 62" using assms(1) by (simp add: pool_ok_def)
    also have "(2::nat) ^ 62 < 2 ^ 64" by simp
    finally show ?thesis .
  qed
  have ni: "NextIndex w = Inr (unat (current (spool w) + 1) mod ?n, ?w1)"
    using assms(2) small by (rule NextIndex_nonempty)
  have ok1: "pool_ok ?w1"
    using assms(1) by (simp add: pool_ok_def)
  have sc: "scan ?w1 next ?n js =
           Inr (map_option (\<lambda>i. ((next + i) mod ?n, backends (spool w) ! ((next + i) mod ?n)))
                  (find (\<lambda>i. Alive (heap w ! (backends (spool w) ! ((next + i) mod ?n)))) js))"
    for "next" js
    using scan_find [OF ok1, of "next" js] assms(2) by simp
  show ?thesis
    using assms(2)
    by (simp add: GetNextPeer_def ni sc Let_def split: option.splits)
qed

lemma GetNextPeer_trace:
  assumes "GetNextPeer w = Inr (r, w1)"
  shows "trace w1 = trace w \<and> heap w1 = heap w \<and> backends (spool w1) = backends (spool w)"
  using assms
  by (auto simp: GetNextPeer_def NextIndex_def Let_def
           split: if_splits sum.splits option.splits prod.splits)

lemma find_upt_None_iff: "find P [0..<n] = None \<longleftrightarrow> (\<forall>i<n. \<not> P i)"
  by (auto simp: find_None_iff)

lemma find_upt_SomeD: "find P [0..<n] = Some i \<Longrightarrow> i < n \<and> P i"
  by (auto simp: find_Some_iff)

lemma cyclic_offset:
  assumes "k < n" and "j < n"
  shows "(k + (j + n - k) mod n) mod n = (j::nat)"
proof -
  have "(k + (j + n - k) mod n) mod n = (k + (j + n - k)) mod n"
    by (simp add: mod_add_right_eq)
  also have "k + (j + n - k) = j + n"
    using assms by simp
  finally show ?thesis using assms by simp
qed

lemma GetNextPeer_all_down:
  assumes "pool_ok w" and "\<forall>b \<in> set (backends (spool w)). \<not> Alive (heap w ! b)"
  shows "GetNextPeer w =
           Inr (None, if backends (spool w) = [] then w
                      else w\<lparr>spool := (spool w)\<lparr>current := current (spool w) + 1\<rparr>\<rparr>)"
proof (cases "backends (spool w) = []")
  case True
  then show ?thesis by (simp add: GetNextPeer_def)
next
  case False
  then have pos: "0 < length (backends (spool w))" by simp
  have "find (\<lambda>i. Alive (heap w ! (backends (spool w) ! ((k + i) mod length (backends (spool w))))))
          [0..<length (backends (spool w))] = None" for k
    using assms(2) pos by (simp add: find_upt_None_iff)
  then show ?thesis
    using False by (simp add: GetNextPeer_find [OF assms(1) pos] Let_def)
qed

lemma GetNextPeer_some_alive:
  assumes "pool_ok w" and "b \<in> set (backends (spool w))" and "Alive (heap w ! b)"
  shows "\<exists>b' w'. GetNextPeer w = Inr (Some b', w') \<and> b' \<in> set (backends (spool w))
            \<and> Alive (heap w ! b') \<and> heap w' = heap w
            \<and> backends (spool w') = backends (spool w)"
proof -
  let ?bs = "backends (spool w)"
  let ?n = "length ?bs"
  let ?k = "unat (current (spool w) + 1) mod ?n"
  let ?P = "\<lambda>i. Alive (heap w ! (?bs ! ((?k + i) mod ?n)))"
  from assms(2) obtain j where j: "j < ?n" "?bs ! j = b"
    by (auto simp: in_set_conv_nth)
  from j(1) have pos: "0 < ?n" by (cases "backends (spool w)") simp_all
  then have k: "?k < ?n" by simp
  have "?P ((j + ?n - ?k) mod ?n)"
    using cyclic_offset [OF k j(1)] j(2) assms(3) by simp
  moreover have "(j + ?n - ?k) mod ?n < ?n" using pos by simp
  ultimately have "find ?P [0..<?n] \<noteq> None"
    by (auto simp only: find_upt_None_iff)
  then obtain i where i: "find ?P [0..<?n] = Some i" by auto
  then have "i < ?n" "?P i" using find_upt_SomeD [OF i] by auto
  moreover have "(?k + i) mod ?n < ?n" using pos by simp
  ultimately show ?thesis
    using i by (simp add: GetNextPeer_find [OF assms(1) pos] Let_def)
qed

lemma GetNextPeer_Some_alive:
  assumes "GetNextPeer w = Inr (Some b, w')"
  shows "IsAlive w b = Inr True \<and> b \<in> set (backends (spool w)) \<and> heap w' = heap w
           \<and> backends (spool w') = backends (spool w)"
proof -
  let ?n = "length (backends (spool w))"
  from assms obtain "next" w1 idx where
    ni: "NextIndex w = Inr (next, w1)" and
    sc: "scan w1 next ?n [0..<?n] = Inr (Some (idx, b))" and
    w': "w' = w1\<lparr>spool := (spool w1)\<lparr>current := word_of_nat idx\<rparr>\<rparr>"
    by (auto simp: GetNextPeer_def Let_def split: if_splits sum.splits option.splits)
  have same: "heap w1 = heap w" "backends (spool w1) = backends (spool w)"
    using NextIndex_heap [OF ni] by simp_all
  have found: "IsAlive w1 b = Inr True" "idx < length (backends (spool w1))"
    "b = backends (spool w1) ! idx"
    using scan_Some_alive [OF sc] by blast+
  have "IsAlive w b = Inr True"
    using found(1) by (simp add: IsAlive_heap_cong [OF same(1)])
  moreover have "b \<in> set (backends (spool w))"
    using found(2,3) same(2) by simp
  moreover have "heap w' = heap w" "backends (spool w') = backends (spool w)"
    using same w' by simp_all
  ultimately show ?thesis by simp
qed

text \<open>
  C8. Selection on an empty pool. With no backend registered, \<open>GetNextPeer\<close> returns
  normally with no backend and changes nothing; it returns before the cursor is touched.
  \<open>NextIndex\<close> itself returns 0 on an empty pool without advancing the cursor, so the
  remainder by the pool size is never taken with a zero divisor.
\<close>

theorem GetNextPeer_empty_pool:
  assumes "backends (spool w) = []"
  shows "GetNextPeer w = Inr (None, w) \<and> NextIndex w = Inr (0, w)"
  using assms by (simp add: GetNextPeer_def NextIndex_def)

theorem GetNextPeer_empty_pool_witness:
  "backends (spool init_world) = []
   \<and> GetNextPeer init_world = Inr (None, init_world)
   \<and> NextIndex init_world = Inr (0, init_world)"
proof -
  have e: "backends (spool init_world) = []" by (simp add: init_world_def)
  from GetNextPeer_empty_pool [OF e] e show ?thesis by simp
qed

text \<open>
  C2. Selection looks at liveness. Whenever \<open>GetNextPeer\<close> returns a backend, that
  backend is registered in the pool and \<open>IsAlive\<close> answers true for it in the state
  the call started from (the call does not change the store). On a well-formed pool
  whose backends are all DOWN the call returns no backend. On a well-formed pool with
  at least one backend alive it returns a backend, and that backend is alive. If one
  backend \<open>a\<close> of an all-DOWN pool is marked alive by \<open>SetAlive\<close>, the very next call
  returns \<open>a\<close>.
\<close>

theorem GetNextPeer_liveness:
  "(GetNextPeer w = Inr (Some b, w') \<longrightarrow>
      IsAlive w b = Inr True \<and> b \<in> set (backends (spool w)) \<and> heap w' = heap w)
   \<and> (pool_ok w \<and> all_down w \<longrightarrow> (\<exists>w'. GetNextPeer w = Inr (None, w') \<and> heap w' = heap w))
   \<and> (pool_ok w \<and> \<not> all_down w \<longrightarrow>
        (\<exists>b' w'. GetNextPeer w = Inr (Some b', w') \<and> IsAlive w b' = Inr True))
   \<and> (pool_ok w \<and> all_down w \<and> a \<in> set (backends (spool w)) \<longrightarrow>
        (\<exists>w1 w2. SetAlive a True w = Inr w1 \<and> GetNextPeer w1 = Inr (Some a, w2)))"
proof -
  have p1: "GetNextPeer w = Inr (Some b, w') \<longrightarrow>
      IsAlive w b = Inr True \<and> b \<in> set (backends (spool w)) \<and> heap w' = heap w"
    using GetNextPeer_Some_alive [of w b w'] by blast
  have p2: "pool_ok w \<and> all_down w \<longrightarrow> (\<exists>w'. GetNextPeer w = Inr (None, w') \<and> heap w' = heap w)"
  proof
    assume a: "pool_ok w \<and> all_down w"
    then have "GetNextPeer w =
             Inr (None, if backends (spool w) = [] then w
                        else w\<lparr>spool := (spool w)\<lparr>current := current (spool w) + 1\<rparr>\<rparr>)"
      by (intro GetNextPeer_all_down) (simp_all add: all_down_def)
    then show "\<exists>w'. GetNextPeer w = Inr (None, w') \<and> heap w' = heap w"
      by simp
  qed
  have p3: "pool_ok w \<and> \<not> all_down w \<longrightarrow>
        (\<exists>b' w'. GetNextPeer w = Inr (Some b', w') \<and> IsAlive w b' = Inr True)"
  proof
    assume a: "pool_ok w \<and> \<not> all_down w"
    then obtain c where c: "c \<in> set (backends (spool w))" "Alive (heap w ! c)"
      by (auto simp: all_down_def)
    from a have ok: "pool_ok w" by simp
    from GetNextPeer_some_alive [OF ok c] obtain b' w' where
      r: "GetNextPeer w = Inr (Some b', w')" "b' \<in> set (backends (spool w))" "Alive (heap w ! b')"
      by blast
    from r(2) ok have "b' < length (heap w)" by (simp add: pool_ok_def)
    with r(3) have "IsAlive w b' = Inr True" by (simp add: IsAlive_ok)
    with r(1) show "\<exists>b' w'. GetNextPeer w = Inr (Some b', w') \<and> IsAlive w b' = Inr True"
      by blast
  qed
  have p4: "pool_ok w \<and> all_down w \<and> a \<in> set (backends (spool w)) \<longrightarrow>
        (\<exists>w1 w2. SetAlive a True w = Inr w1 \<and> GetNextPeer w1 = Inr (Some a, w2))"
  proof
    assume a: "pool_ok w \<and> all_down w \<and> a \<in> set (backends (spool w))"
    then have ok: "pool_ok w" and down: "all_down w" and mem: "a \<in> set (backends (spool w))"
      by simp_all
    let ?w1 = "emit (SetAliveCall a True) (w\<lparr>heap := (heap w)[a := (heap w ! a)\<lparr>Alive := True\<rparr>]\<rparr>)"
    have alloc: "a < length (heap w)" using ok mem by (simp add: pool_ok_def)
    have set: "SetAlive a True w = Inr ?w1" using alloc by (rule SetAlive_ok)
    have ok1: "pool_ok ?w1" using ok by (simp add: pool_ok_def emit_def)
    have mem1: "a \<in> set (backends (spool ?w1))" using mem by (simp add: emit_def)
    have up1: "Alive (heap ?w1 ! a)" using alloc by (simp add: emit_def)
    from GetNextPeer_some_alive [OF ok1 mem1 up1] obtain b' w2 where
      r: "GetNextPeer ?w1 = Inr (Some b', w2)" "b' \<in> set (backends (spool ?w1))" "Alive (heap ?w1 ! b')"
      by blast
    have "b' = a"
    proof (rule ccontr)
      assume ne: "b' \<noteq> a"
      from r(2) have "b' \<in> set (backends (spool w))" by (simp add: emit_def)
      with down have "\<not> Alive (heap w ! b')" by (simp add: all_down_def)
      moreover from r(3) ne have "Alive (heap w ! b')" by (simp add: emit_def)
      ultimately show False by simp
    qed
    with set r(1) show "\<exists>w1 w2. SetAlive a True w = Inr w1 \<and> GetNextPeer w1 = Inr (Some a, w2)"
      by blast
  qed
  show ?thesis by (intro conjI p1 p2 p3 p4)
qed

theorem GetNextPeer_liveness_witness:
  "pool_ok \<lparr>heap = [\<lparr>URL = ''http://localhost:8081'', Alive = False\<rparr>,
                    \<lparr>URL = ''http://localhost:8082'', Alive = False\<rparr>,
                    \<lparr>URL = ''http://localhost:8083'', Alive = False\<rparr>],
            spool = \<lparr>backends = [0, 1, 2], current = 7\<rparr>, trace = []\<rparr>
   \<and> all_down \<lparr>heap = [\<lparr>URL = ''http://localhost:8081'', Alive = False\<rparr>,
                    \<lparr>URL = ''http://localhost:8082'', Alive = False\<rparr>,
                    \<lparr>URL = ''http://localhost:8083'', Alive = False\<rparr>],
            spool = \<lparr>backends = [0, 1, 2], current = 7\<rparr>, trace = []\<rparr>
   \<and> (\<exists>w'. GetNextPeer \<lparr>heap = [\<lparr>URL = ''http://localhost:8081'', Alive = False\<rparr>,
                    \<lparr>URL = ''http://localhost:8082'', Alive = False\<rparr>,
                    \<lparr>URL = ''http://localhost:8083'', Alive = False\<rparr>],
            spool = \<lparr>backends = [0, 1, 2], current = 7\<rparr>, trace = []\<rparr> = Inr (None, w'))
   \<and> (\<exists>w1 w2. SetAlive 2 True \<lparr>heap = [\<lparr>URL = ''http://localhost:8081'', Alive = False\<rparr>,
                    \<lparr>URL = ''http://localhost:8082'', Alive = False\<rparr>,
                    \<lparr>URL = ''http://localhost:8083'', Alive = False\<rparr>],
            spool = \<lparr>backends = [0, 1, 2], current = 7\<rparr>, trace = []\<rparr> = Inr w1
         \<and> GetNextPeer w1 = Inr (Some 2, w2))
   \<and> pool_ok \<lparr>heap = [\<lparr>URL = ''http://localhost:8081'', Alive = True\<rparr>,
                    \<lparr>URL = ''http://localhost:8082'', Alive = False\<rparr>,
                    \<lparr>URL = ''http://localhost:8083'', Alive = False\<rparr>],
            spool = \<lparr>backends = [0, 1, 2], current = 0\<rparr>, trace = []\<rparr>
   \<and> \<not> all_down \<lparr>heap = [\<lparr>URL = ''http://localhost:8081'', Alive = True\<rparr>,
                    \<lparr>URL = ''http://localhost:8082'', Alive = False\<rparr>,
                    \<lparr>URL = ''http://localhost:8083'', Alive = False\<rparr>],
            spool = \<lparr>backends = [0, 1, 2], current = 0\<rparr>, trace = []\<rparr>
   \<and> GetNextPeer \<lparr>heap = [\<lparr>URL = ''http://localhost:8081'', Alive = True\<rparr>,
                    \<lparr>URL = ''http://localhost:8082'', Alive = False\<rparr>,
                    \<lparr>URL = ''http://localhost:8083'', Alive = False\<rparr>],
            spool = \<lparr>backends = [0, 1, 2], current = 0\<rparr>, trace = []\<rparr>
       = Inr (Some 0,
              \<lparr>heap = [\<lparr>URL = ''http://localhost:8081'', Alive = True\<rparr>,
                    \<lparr>URL = ''http://localhost:8082'', Alive = False\<rparr>,
                    \<lparr>URL = ''http://localhost:8083'', Alive = False\<rparr>],
            spool = \<lparr>backends = [0, 1, 2], current = 0\<rparr>, trace = []\<rparr>)
   \<and> IsAlive \<lparr>heap = [\<lparr>URL = ''http://localhost:8081'', Alive = True\<rparr>,
                    \<lparr>URL = ''http://localhost:8082'', Alive = False\<rparr>,
                    \<lparr>URL = ''http://localhost:8083'', Alive = False\<rparr>],
            spool = \<lparr>backends = [0, 1, 2], current = 0\<rparr>, trace = []\<rparr> 0 = Inr True"
proof -
  let ?w = "\<lparr>heap = [\<lparr>URL = ''http://localhost:8081'', Alive = False\<rparr>,
                    \<lparr>URL = ''http://localhost:8082'', Alive = False\<rparr>,
                    \<lparr>URL = ''http://localhost:8083'', Alive = False\<rparr>],
            spool = \<lparr>backends = [0, 1, 2], current = 7\<rparr>, trace = []\<rparr>"
  let ?v = "\<lparr>heap = [\<lparr>URL = ''http://localhost:8081'', Alive = True\<rparr>,
                    \<lparr>URL = ''http://localhost:8082'', Alive = False\<rparr>,
                    \<lparr>URL = ''http://localhost:8083'', Alive = False\<rparr>],
            spool = \<lparr>backends = [0, 1, 2], current = 0\<rparr>, trace = []\<rparr>"
  have ok: "pool_ok ?w" by (simp add: pool_ok_def)
  have down: "all_down ?w" by (simp add: all_down_def)
  have mem: "2 \<in> set (backends (spool ?w))" by simp
  have okv: "pool_ok ?v" by (simp add: pool_ok_def)
  have upv: "\<not> all_down ?v" by (simp add: all_down_def)
  have selv: "GetNextPeer ?v = Inr (Some 0, ?v)" by code_simp
  from GetNextPeer_liveness [of ?w _ _ 2] ok down mem
  have first: "(\<exists>w'. GetNextPeer ?w = Inr (None, w'))
     \<and> (\<exists>w1 w2. SetAlive 2 True ?w = Inr w1 \<and> GetNextPeer w1 = Inr (Some 2, w2))"
    by blast
  from GetNextPeer_liveness [of ?v 0 ?v] selv
  have second: "IsAlive ?v 0 = Inr True"
    by blast
  from GetNextPeer_liveness [of ?v] okv upv
  have third: "\<exists>b' w'. GetNextPeer ?v = Inr (Some b', w') \<and> IsAlive ?v b' = Inr True"
    by blast
  from ok down first okv upv selv second show ?thesis
    by blast
qed

subsection \<open>Selection: round robin\<close>

lemma GetNextPeer_all_alive:
  assumes "pool_ok w" and "0 < length (backends (spool w))" and "all_alive w"
  shows "GetNextPeer w =
           Inr (Some (backends (spool w) ! (unat (current (spool w) + 1) mod length (backends (spool w)))),
                w\<lparr>spool := (spool w)\<lparr>current :=
                     word_of_nat (unat (current (spool w) + 1) mod length (backends (spool w)))\<rparr>\<rparr>)"
proof -
  let ?n = "length (backends (spool w))"
  let ?k = "unat (current (spool w) + 1) mod ?n"
  have "?k < ?n" using assms(2) by simp
  then have "Alive (heap w ! (backends (spool w) ! ?k))"
    using assms(3) by (simp add: all_alive_def)
  moreover have "[0..<?n] = 0 # [Suc 0..<?n]"
    using assms(2) by (simp add: upt_conv_Cons)
  ultimately have "find (\<lambda>i. Alive (heap w ! (backends (spool w) ! ((?k + i) mod ?n)))) [0..<?n] = Some 0"
    by simp
  then show ?thesis
    by (simp add: GetNextPeer_find [OF assms(1,2)] Let_def)
qed

lemma unat_pinned_succ:
  assumes "k < n" and "n < 2 ^ 62"
  shows "unat (word_of_nat k + 1 :: 64 word) mod n = Suc k mod n"
proof -
  have "Suc k < 2 ^ 64"
  proof -
    have "Suc k \<le> n" using assms(1) by simp
    also have "n < 2 ^ 62" by (rule assms(2))
    also have "(2::nat) ^ 62 < 2 ^ 64" by simp
    finally show ?thesis .
  qed
  moreover have "(word_of_nat k + 1 :: 64 word) = word_of_nat (Suc k)" by simp
  ultimately have "unat (word_of_nat k + 1 :: 64 word) = Suc k"
    by (simp only: unat_word_of_nat_small)
  then show ?thesis by simp
qed

lemma GetNextPeer_times_all_alive:
  assumes "pool_ok w" and "0 < length (backends (spool w))" and "all_alive w"
  shows "\<exists>w'. GetNextPeer_times m w =
           Inr (map (\<lambda>i. Some (backends (spool w) !
                      ((unat (current (spool w) + 1) + i) mod length (backends (spool w))))) [0..<m], w')
           \<and> heap w' = heap w \<and> backends (spool w') = backends (spool w)"
  using assms
proof (induction m arbitrary: w)
  case 0
  show ?case by simp
next
  case (Suc m)
  let ?bs = "backends (spool w)"
  let ?n = "length ?bs"
  let ?k = "unat (current (spool w) + 1) mod ?n"
  let ?w1 = "w\<lparr>spool := (spool w)\<lparr>current := word_of_nat ?k\<rparr>\<rparr>"
  have step: "GetNextPeer w = Inr (Some (?bs ! ?k), ?w1)"
    using Suc.prems by (rule GetNextPeer_all_alive)
  have ok1: "pool_ok ?w1" "0 < length (backends (spool ?w1))" "all_alive ?w1"
    using Suc.prems by (simp_all add: pool_ok_def all_alive_def)
  have k: "?k < ?n" using Suc.prems(2) by simp
  have n: "?n < 2 ^ 62" using Suc.prems(1) by (simp add: pool_ok_def)
  have nxt: "unat (current (spool ?w1) + 1) mod ?n = Suc ?k mod ?n"
    using unat_pinned_succ [OF k n] by simp
  from Suc.IH [OF ok1] obtain w' where
    rest: "GetNextPeer_times m ?w1 =
             Inr (map (\<lambda>i. Some (?bs ! ((unat (current (spool ?w1) + 1) + i) mod ?n))) [0..<m], w')"
    and same: "heap w' = heap w" "backends (spool w') = backends (spool w)"
    by auto
  have shift: "(unat (current (spool ?w1) + 1) + i) mod ?n = (unat (current (spool w) + 1) + Suc i) mod ?n" for i
  proof -
    have "(unat (current (spool ?w1) + 1) + i) mod ?n = (unat (current (spool ?w1) + 1) mod ?n + i) mod ?n"
      by (simp add: mod_add_left_eq)
    also have "\<dots> = (Suc ?k mod ?n + i) mod ?n" by (simp only: nxt)
    also have "\<dots> = (Suc ?k + i) mod ?n" by (simp add: mod_add_left_eq)
    also have "\<dots> = (?k + Suc i) mod ?n" by simp
    also have "\<dots> = (unat (current (spool w) + 1) + Suc i) mod ?n" by (rule mod_add_left_eq)
    finally show ?thesis .
  qed
  have upt: "[0..<Suc m] = 0 # map Suc [0..<m]"
    by (simp only: map_Suc_upt upt_conv_Cons [of 0 "Suc m"])
  have rest': "GetNextPeer_times m ?w1 =
             Inr (map (\<lambda>i. Some (?bs ! ((unat (current (spool w) + 1) + Suc i) mod ?n))) [0..<m], w')"
    using rest by (simp only: shift)
  have "GetNextPeer_times (Suc m) w =
          Inr (Some (?bs ! ?k) # map (\<lambda>i. Some (?bs ! ((unat (current (spool w) + 1) + Suc i) mod ?n))) [0..<m], w')"
    by (simp only: GetNextPeer_times.simps step rest' sum.case prod.case)
  also have "Some (?bs ! ?k) # map (\<lambda>i. Some (?bs ! ((unat (current (spool w) + 1) + Suc i) mod ?n))) [0..<m]
             = map (\<lambda>i. Some (?bs ! ((unat (current (spool w) + 1) + i) mod ?n))) [0..<Suc m]"
    by (simp only: upt list.map map_map o_def) simp
  finally show ?case using same by simp
qed

lemma rotate_as_map:
  assumes "xs \<noteq> []"
  shows "rotate k xs = map (\<lambda>i. xs ! ((k + i) mod length xs)) [0..<length xs]"
  by (rule nth_equalityI) (simp_all add: nth_rotate)

lemma mset_rotate_eq: "mset (rotate k xs) = mset xs"
proof -
  let ?m = "k mod length xs"
  have "mset (rotate k xs) = mset (drop ?m xs) + mset (take ?m xs)"
    by (simp add: rotate_drop_take)
  also have "\<dots> = mset (take ?m xs) + mset (drop ?m xs)"
    by (rule add.commute)
  also have "\<dots> = mset (take ?m xs @ drop ?m xs)"
    by (simp only: mset_append)
  also have "\<dots> = mset xs"
    by (simp only: append_take_drop_id)
  finally show ?thesis .
qed

text \<open>
  C3. Round-robin with an all-alive pool. On a well-formed pool of \<open>N \<ge> 1\<close> backends,
  all alive, a call of \<open>GetNextPeer\<close> returns the backend at index
  \<open>k = (current + 1) mod N\<close> and pins the cursor to \<open>k\<close>, and \<open>N\<close> calls in a row
  return the registry rotated by \<open>k\<close>: every entry of the registry exactly once, in the
  cyclic order of the registry, starting right after the cursor.
\<close>

theorem GetNextPeer_round_robin:
  assumes "pool_ok w" and "backends (spool w) \<noteq> []" and "all_alive w"
    and "N = length (backends (spool w))"
    and "k = unat (current (spool w) + 1) mod N"
  shows "GetNextPeer w =
           Inr (Some (backends (spool w) ! k), w\<lparr>spool := (spool w)\<lparr>current := word_of_nat k\<rparr>\<rparr>)
         \<and> (\<exists>w'. GetNextPeer_times N w = Inr (map Some (rotate k (backends (spool w))), w')
                  \<and> heap w' = heap w \<and> backends (spool w') = backends (spool w))
         \<and> mset (rotate k (backends (spool w))) = mset (backends (spool w))"
proof -
  have pos: "0 < length (backends (spool w))" using assms(2) by simp
  have one: "GetNextPeer w =
           Inr (Some (backends (spool w) ! k), w\<lparr>spool := (spool w)\<lparr>current := word_of_nat k\<rparr>\<rparr>)"
    using GetNextPeer_all_alive [OF assms(1) pos assms(3)] assms(4,5) by simp
  from GetNextPeer_times_all_alive [OF assms(1) pos assms(3), of N] obtain w' where
    run: "GetNextPeer_times N w =
            Inr (map (\<lambda>i. Some (backends (spool w) ! ((unat (current (spool w) + 1) + i) mod N))) [0..<N], w')"
    and same: "heap w' = heap w" "backends (spool w') = backends (spool w)"
    using assms(4) by auto
  have "map (\<lambda>i. Some (backends (spool w) ! ((unat (current (spool w) + 1) + i) mod N))) [0..<N]
          = map Some (map (\<lambda>i. backends (spool w) ! ((k + i) mod N)) [0..<N])"
    using assms(5) by (simp add: mod_add_left_eq)
  also have "\<dots> = map Some (rotate k (backends (spool w)))"
    using rotate_as_map [OF assms(2), of k] assms(4) by simp
  finally have "GetNextPeer_times N w = Inr (map Some (rotate k (backends (spool w))), w')"
    using run by simp
  with one same show ?thesis by (simp add: mset_rotate_eq)
qed

theorem GetNextPeer_round_robin_witness:
  "GetNextPeer_times 3
     \<lparr>heap = [\<lparr>URL = ''http://localhost:8081'', Alive = True\<rparr>,
              \<lparr>URL = ''http://localhost:8082'', Alive = True\<rparr>,
              \<lparr>URL = ''http://localhost:8083'', Alive = True\<rparr>],
      spool = \<lparr>backends = [0, 1, 2], current = 0\<rparr>, trace = []\<rparr>
   = Inr ([Some 1, Some 2, Some 0],
     \<lparr>heap = [\<lparr>URL = ''http://localhost:8081'', Alive = True\<rparr>,
              \<lparr>URL = ''http://localhost:8082'', Alive = True\<rparr>,
              \<lparr>URL = ''http://localhost:8083'', Alive = True\<rparr>],
      spool = \<lparr>backends = [0, 1, 2], current = 0\<rparr>, trace = []\<rparr>)"
proof -
  let ?w = "\<lparr>heap = [\<lparr>URL = ''http://localhost:8081'', Alive = True\<rparr>,
              \<lparr>URL = ''http://localhost:8082'', Alive = True\<rparr>,
              \<lparr>URL = ''http://localhost:8083'', Alive = True\<rparr>],
      spool = \<lparr>backends = [0, 1, 2], current = 0\<rparr>, trace = []\<rparr>"
  have ok: "pool_ok ?w" by (simp add: pool_ok_def)
  have ne: "backends (spool ?w) \<noteq> []" by simp
  have up: "all_alive ?w" by (simp add: all_alive_def)
  have n: "3 = length (backends (spool ?w))" by simp
  have k: "1 = unat (current (spool ?w) + 1) mod 3" by simp
  from GetNextPeer_round_robin [OF ok ne up n k]
  obtain w' where run: "GetNextPeer_times 3 ?w = Inr (map Some (rotate 1 (backends (spool ?w))), w')"
    by blast
  have "GetNextPeer_times 3 ?w = Inr ([Some 1, Some 2, Some 0], ?w)"
    by code_simp
  with run show ?thesis by simp
qed

subsection \<open>Registration and start-up\<close>

text \<open>
  C4. Registration of a duplicate. \<open>AddBackend\<close> has no check for an endpoint that is
  already registered: it always appends its argument, so the pool grows by one entry
  and by one endpoint on every call, the earlier entries stay in place, and nothing
  else changes. The counterexample after the theorem registers two backends with the
  URL \<open>http://localhost:8081\<close> in an empty pool: both are in the pool afterwards.
\<close>

theorem AddBackend_appends:
  "backends (spool (AddBackend b w)) = backends (spool w) @ [b]
   \<and> GetPoolSize (AddBackend b w) = GetPoolSize w + 1
   \<and> pool_urls (AddBackend b w) = pool_urls w @ [URL (heap w ! b)]
   \<and> heap (AddBackend b w) = heap w
   \<and> current (spool (AddBackend b w)) = current (spool w)
   \<and> trace (AddBackend b w) = trace w"
  by (simp add: AddBackend_def GetPoolSize_def pool_urls_def)

text \<open>The two backends of the counterexample have the same URL and are both registered.\<close>

theorem AddBackend_duplicate_counterexample:
  "pool_urls (AddBackend 1 (AddBackend 0
     \<lparr>heap = [\<lparr>URL = ''http://localhost:8081'', Alive = True\<rparr>,
              \<lparr>URL = ''http://localhost:8081'', Alive = True\<rparr>],
      spool = \<lparr>backends = [], current = 0\<rparr>, trace = []\<rparr>))
   = [''http://localhost:8081'', ''http://localhost:8081'']
   \<and> \<not> distinct (pool_urls (AddBackend 1 (AddBackend 0
     \<lparr>heap = [\<lparr>URL = ''http://localhost:8081'', Alive = True\<rparr>,
              \<lparr>URL = ''http://localhost:8081'', Alive = True\<rparr>],
      spool = \<lparr>backends = [], current = 0\<rparr>, trace = []\<rparr>)))"
  by (simp add: pool_urls_def AddBackend_def)

lemma NewBackend_Inr:
  assumes "NewBackend parse urlStr w = Inr (b, w')"
  shows "b = length (heap w) \<and> (\<exists>u. parse urlStr = Inr u \<and> heap w' = heap w @ [\<lparr>URL = u, Alive = True\<rparr>])
         \<and> spool w' = spool w"
  using assms by (auto simp: NewBackend_def Let_def emit_def split: sum.splits)

lemma add_backends_fresh:
  "pool_fresh w \<Longrightarrow> add_backends parse urls w = Inr w' \<Longrightarrow>
     pool_fresh w' \<and> length (backends (spool w')) = length (backends (spool w)) + length urls"
proof (induction urls arbitrary: w)
  case Nil
  then show ?case by simp
next
  case (Cons urlStr rest)
  from Cons.prems(2) obtain b w1 where
    nb: "NewBackend parse urlStr w = Inr (b, w1)" and
    rest: "add_backends parse rest (emit (LogAdded urlStr) (AddBackend b w1)) = Inr w'"
    by (auto split: sum.splits)
  let ?w2 = "emit (LogAdded urlStr) (AddBackend b w1)"
  from NewBackend_Inr [OF nb] obtain u where
    b: "b = length (heap w)" and h: "heap w1 = heap w @ [\<lparr>URL = u, Alive = True\<rparr>]"
    and p: "spool w1 = spool w"
    by blast
  have "pool_fresh ?w2"
    using Cons.prems(1) b h p
    by (auto simp: pool_fresh_def IsAlive_True_iff emit_def AddBackend_def nth_append)
  moreover have "length (backends (spool ?w2)) = length (backends (spool w)) + 1"
    using p by (simp add: emit_def AddBackend_def)
  ultimately show ?case
    using Cons.IH [OF _ rest] by simp
qed

text \<open>
  C10. Backends start UP. A backend that \<open>NewBackend\<close> constructs is alive in the state
  \<open>NewBackend\<close> returns. After the start-up loop of \<open>main\<close> has filled the empty
  pool from a list of URLs, the pool has one backend for each URL and every one of them
  is alive; if the list is not empty, the first selection returns a backend.
\<close>

theorem NewBackend_initially_alive:
  "(NewBackend parse urlStr w = Inr (b, w') \<longrightarrow> IsAlive w' b = Inr True)
   \<and> (add_backends parse urls init_world = Inr w2 \<longrightarrow>
        length (backends (spool w2)) = length urls
        \<and> (\<forall>b \<in> set (backends (spool w2)). IsAlive w2 b = Inr True)
        \<and> (urls \<noteq> [] \<and> length urls < 2 ^ 62 \<longrightarrow>
             (\<exists>b w3. GetNextPeer w2 = Inr (Some b, w3))))"
proof -
  have p1: "NewBackend parse urlStr w = Inr (b, w') \<longrightarrow> IsAlive w' b = Inr True"
  proof
    assume "NewBackend parse urlStr w = Inr (b, w')"
    from NewBackend_Inr [OF this] show "IsAlive w' b = Inr True"
      by (auto simp: IsAlive_True_iff)
  qed
  have p3: "add_backends parse urls init_world = Inr w2 \<longrightarrow>
        length (backends (spool w2)) = length urls
        \<and> (\<forall>b \<in> set (backends (spool w2)). IsAlive w2 b = Inr True)
        \<and> (urls \<noteq> [] \<and> length urls < 2 ^ 62 \<longrightarrow>
             (\<exists>b w3. GetNextPeer w2 = Inr (Some b, w3)))"
  proof
    assume run: "add_backends parse urls init_world = Inr w2"
    have "pool_fresh init_world"
      by (simp add: pool_fresh_def init_world_def)
    from add_backends_fresh [OF this run]
    have fresh: "pool_fresh w2" and len: "length (backends (spool w2)) = length urls"
      by (simp_all add: init_world_def)
    have alive: "\<forall>b \<in> set (backends (spool w2)). IsAlive w2 b = Inr True"
      using fresh by (simp add: pool_fresh_def)
    have sel: "\<exists>b w3. GetNextPeer w2 = Inr (Some b, w3)"
      if ne: "urls \<noteq> []" and small: "length urls < 2 ^ 62"
    proof -
      have ok: "pool_ok w2"
        using alive len small by (simp add: pool_ok_def IsAlive_True_iff)
      from ne len obtain c where c: "c \<in> set (backends (spool w2))"
        by (cases "backends (spool w2)") auto
      with alive have "Alive (heap w2 ! c)"
        by (simp add: IsAlive_True_iff)
      from GetNextPeer_some_alive [OF ok c this] show ?thesis
        by blast
    qed
    show "length (backends (spool w2)) = length urls
        \<and> (\<forall>b \<in> set (backends (spool w2)). IsAlive w2 b = Inr True)
        \<and> (urls \<noteq> [] \<and> length urls < 2 ^ 62 \<longrightarrow>
             (\<exists>b w3. GetNextPeer w2 = Inr (Some b, w3)))"
      using len alive sel by blast
  qed
  show ?thesis by (intro conjI p1 p3)
qed

theorem NewBackend_initially_alive_witness:
  "add_backends Inr backendURLs init_world =
     Inr \<lparr>heap = [\<lparr>URL = ''http://localhost:8081'', Alive = True\<rparr>,
                  \<lparr>URL = ''http://localhost:8082'', Alive = True\<rparr>,
                  \<lparr>URL = ''http://localhost:8083'', Alive = True\<rparr>],
          spool = \<lparr>backends = [0, 1, 2], current = 0\<rparr>,
          trace = [LogCreated ''http://localhost:8081'', LogAdded ''http://localhost:8081'',
                   LogCreated ''http://localhost:8082'', LogAdded ''http://localhost:8082'',
                   LogCreated ''http://localhost:8083'', LogAdded ''http://localhost:8083'']\<rparr>
   \<and> (\<exists>w2 b w3. add_backends Inr backendURLs init_world = Inr w2
         \<and> length (backends (spool w2)) = 3
         \<and> IsAlive w2 0 = Inr True \<and> IsAlive w2 1 = Inr True \<and> IsAlive w2 2 = Inr True
         \<and> GetNextPeer w2 = Inr (Some b, w3))
   \<and> NewBackend Inr ''http://localhost:8081'' init_world =
       Inr (0, \<lparr>heap = [\<lparr>URL = ''http://localhost:8081'', Alive = True\<rparr>],
                 spool = \<lparr>backends = [], current = 0\<rparr>,
                 trace = [LogCreated ''http://localhost:8081'']\<rparr>)
   \<and> IsAlive \<lparr>heap = [\<lparr>URL = ''http://localhost:8081'', Alive = True\<rparr>],
                 spool = \<lparr>backends = [], current = 0\<rparr>,
                 trace = [LogCreated ''http://localhost:8081'']\<rparr> 0 = Inr True"
proof -
  let ?w0 = "\<lparr>heap = [\<lparr>URL = ''http://localhost:8081'', Alive = True\<rparr>],
              spool = \<lparr>backends = [], current = 0\<rparr>,
              trace = [LogCreated ''http://localhost:8081'']\<rparr>"
  have new: "NewBackend Inr ''http://localhost:8081'' init_world = Inr (0, ?w0)"
    by (simp add: NewBackend_def init_world_def emit_def Let_def)
  from NewBackend_initially_alive [of Inr "''http://localhost:8081''" init_world 0 ?w0] new
  have up0: "IsAlive ?w0 0 = Inr True"
    by blast
  let ?w2 = "\<lparr>heap = [\<lparr>URL = ''http://localhost:8081'', Alive = True\<rparr>,
                  \<lparr>URL = ''http://localhost:8082'', Alive = True\<rparr>,
                  \<lparr>URL = ''http://localhost:8083'', Alive = True\<rparr>],
          spool = \<lparr>backends = [0, 1, 2], current = 0\<rparr>,
          trace = [LogCreated ''http://localhost:8081'', LogAdded ''http://localhost:8081'',
                   LogCreated ''http://localhost:8082'', LogAdded ''http://localhost:8082'',
                   LogCreated ''http://localhost:8083'', LogAdded ''http://localhost:8083'']\<rparr>"
  have run: "add_backends Inr backendURLs init_world = Inr ?w2"
    by (simp add: backendURLs_def init_world_def NewBackend_def AddBackend_def emit_def Let_def)
  have ne: "backendURLs \<noteq> [] \<and> length backendURLs < 2 ^ 62"
    by (simp add: backendURLs_def)
  from NewBackend_initially_alive [of Inr _ _ _ _ backendURLs ?w2] run ne
  have "length (backends (spool ?w2)) = length backendURLs
        \<and> (\<forall>b \<in> set (backends (spool ?w2)). IsAlive ?w2 b = Inr True)
        \<and> (\<exists>b w3. GetNextPeer ?w2 = Inr (Some b, w3))"
    by blast
  then have "length (backends (spool ?w2)) = 3
         \<and> IsAlive ?w2 0 = Inr True \<and> IsAlive ?w2 1 = Inr True \<and> IsAlive ?w2 2 = Inr True
         \<and> (\<exists>b w3. GetNextPeer ?w2 = Inr (Some b, w3))"
    by (simp add: backendURLs_def)
  with run new up0 show ?thesis by blast
qed

subsection \<open>Active health check\<close>

lemma checkBackend_eq:
  assumes "backend < length (heap w)"
  shows "checkBackend alive backend w =
           (if alive \<noteq> Alive (heap w ! backend) then
              Inr (w\<lparr>heap := (heap w)[backend := (heap w ! backend)\<lparr>Alive := alive\<rparr>],
                     trace := trace w @
                       [if alive then LogRecovered (URL (heap w ! backend))
                        else LogFailedHealthCheck (URL (heap w ! backend)),
                        SetAliveCall backend alive]\<rparr>)
            else Inr w)"
  using assms
  by (simp add: checkBackend_def IsAlive_ok deref_ok SetAlive_def emit_def deref_def)

lemma checkBackend_step:
  assumes "b < length (heap w)"
  shows "\<exists>w1. checkBackend (p (URL (heap w ! b))) b w = Inr w1
           \<and> length (heap w1) = length (heap w) \<and> spool w1 = spool w
           \<and> (\<forall>a. URL (heap w1 ! a) = URL (heap w ! a))
           \<and> (\<forall>a. probe_agrees p w a \<longrightarrow> probe_agrees p w1 a)
           \<and> probe_agrees p w1 b"
proof (cases "p (URL (heap w ! b)) = Alive (heap w ! b)")
  case True
  then have "checkBackend (p (URL (heap w ! b))) b w = Inr w"
    using checkBackend_eq [OF assms, of "p (URL (heap w ! b))"] by simp
  then show ?thesis using True by (simp add: probe_agrees_def)
next
  case False
  let ?w1 = "w\<lparr>heap := (heap w)[b := (heap w ! b)\<lparr>Alive := p (URL (heap w ! b))\<rparr>],
               trace := trace w @
                 [if p (URL (heap w ! b)) then LogRecovered (URL (heap w ! b))
                  else LogFailedHealthCheck (URL (heap w ! b)),
                  SetAliveCall b (p (URL (heap w ! b)))]\<rparr>"
  have "checkBackend (p (URL (heap w ! b))) b w = Inr ?w1"
    using checkBackend_eq [OF assms, of "p (URL (heap w ! b))"] False by simp
  moreover have "URL (heap ?w1 ! a) = URL (heap w ! a)" for a
    using assms by (cases "a = b") simp_all
  moreover have "probe_agrees p w a \<longrightarrow> probe_agrees p ?w1 a" for a
    using assms by (cases "a = b") (simp_all add: probe_agrees_def)
  moreover have "probe_agrees p ?w1 b"
    using assms by (simp add: probe_agrees_def)
  ultimately show ?thesis by simp
qed

lemma checkHealth_loop_establishes:
  assumes "\<forall>b \<in> set bs. b < length (heap w)"
  shows "\<exists>w'. checkHealth_loop p bs w = Inr w'
           \<and> length (heap w') = length (heap w) \<and> spool w' = spool w
           \<and> (\<forall>a. URL (heap w' ! a) = URL (heap w ! a))
           \<and> (\<forall>a. probe_agrees p w a \<longrightarrow> probe_agrees p w' a)
           \<and> (\<forall>b \<in> set bs. probe_agrees p w' b)"
  using assms
proof (induction bs arbitrary: w)
  case Nil
  show ?case by simp
next
  case (Cons b bs)
  from Cons.prems have alloc: "b < length (heap w)" by simp
  from checkBackend_step [OF alloc, of p] obtain w1 where
    s: "checkBackend (p (URL (heap w ! b))) b w = Inr w1"
       "length (heap w1) = length (heap w)" "spool w1 = spool w"
       "\<forall>a. URL (heap w1 ! a) = URL (heap w ! a)"
       "\<forall>a. probe_agrees p w a \<longrightarrow> probe_agrees p w1 a"
       "probe_agrees p w1 b"
    by blast
  have "\<forall>b \<in> set bs. b < length (heap w1)"
    using Cons.prems s(2) by simp
  from Cons.IH [OF this] obtain w' where
    r: "checkHealth_loop p bs w1 = Inr w'"
       "length (heap w') = length (heap w1)" "spool w' = spool w1"
       "\<forall>a. URL (heap w' ! a) = URL (heap w1 ! a)"
       "\<forall>a. probe_agrees p w1 a \<longrightarrow> probe_agrees p w' a"
       "\<forall>b \<in> set bs. probe_agrees p w' b"
    by blast
  have "checkHealth_loop p (b # bs) w = Inr w'"
    using alloc s(1) r(1) by (simp add: deref_ok)
  then show ?case
    using s r by simp
qed

lemma checkHealth_loop_steady:
  assumes "\<forall>b \<in> set bs. b < length (heap w) \<and> probe_agrees p w b"
  shows "checkHealth_loop p bs w = Inr w"
  using assms
proof (induction bs)
  case Nil
  show ?case by simp
next
  case (Cons b bs)
  then have alloc: "b < length (heap w)" and agree: "p (URL (heap w ! b)) = Alive (heap w ! b)"
    by (simp_all add: probe_agrees_def)
  have "checkBackend (p (URL (heap w ! b))) b w = Inr w"
    using checkBackend_eq [OF alloc, of "p (URL (heap w ! b))"] agree by simp
  then show ?case
    using alloc Cons by (simp add: deref_ok)
qed

lemma checkHealth_twice:
  assumes "\<forall>b \<in> set (backends (spool w)). b < length (heap w)"
  shows "\<exists>w1. checkHealth p w = Inr w1 \<and> checkHealth p w1 = Inr w1"
proof -
  from checkHealth_loop_establishes [OF assms, of p] obtain w1 where
    r: "checkHealth_loop p (backends (spool w)) w = Inr w1"
       "length (heap w1) = length (heap w)" "spool w1 = spool w"
       "\<forall>b \<in> set (backends (spool w)). probe_agrees p w1 b"
    by blast
  have "\<forall>b \<in> set (backends (spool w1)). b < length (heap w1) \<and> probe_agrees p w1 b"
    using assms r by simp
  then have "checkHealth_loop p (backends (spool w1)) w1 = Inr w1"
    by (rule checkHealth_loop_steady)
  with r(1) show ?thesis
    by (simp add: checkHealth_def GetBackends_def)
qed

lemma set_first_occurrences: "set (first_occurrences bs) = set bs"
  by (induction bs) auto

lemma first_occurrences_distinct: "distinct bs \<Longrightarrow> first_occurrences bs = bs"
proof (induction bs)
  case Nil
  show ?case by simp
next
  case (Cons b bs)
  then have "b \<notin> set (first_occurrences bs)"
    by (simp add: set_first_occurrences)
  then have "filter (\<lambda>c. c \<noteq> b) (first_occurrences bs) = first_occurrences bs"
    by (simp add: filter_id_conv) blast
  with Cons show ?case by simp
qed

lemma concat_map_skip:
  assumes "\<forall>x \<in> set xs. (x \<noteq> b \<longrightarrow> f x = g x) \<and> (x = b \<longrightarrow> f x = [])"
  shows "concat (map f xs) = concat (map g (filter (\<lambda>c. c \<noteq> b) xs))"
  using assms by (induction xs) auto

lemma checkBackend_uniform:
  assumes "b < length (heap w)"
  shows "checkBackend (p (URL (heap w ! b))) b w =
           Inr (w\<lparr>heap := (heap w)[b := (heap w ! b)\<lparr>Alive := p (URL (heap w ! b))\<rparr>],
                  trace := trace w @
                    (if p (URL (heap w ! b)) = Alive (heap w ! b) then []
                     else [if p (URL (heap w ! b)) then LogRecovered (URL (heap w ! b))
                           else LogFailedHealthCheck (URL (heap w ! b)),
                           SetAliveCall b (p (URL (heap w ! b)))])\<rparr>)"
proof (cases "p (URL (heap w ! b)) = Alive (heap w ! b)")
  case True
  then have "(heap w ! b)\<lparr>Alive := p (URL (heap w ! b))\<rparr> = heap w ! b"
    by simp
  then have "w\<lparr>heap := (heap w)[b := (heap w ! b)\<lparr>Alive := p (URL (heap w ! b))\<rparr>],
               trace := trace w @ []\<rparr> = w"
    by simp
  moreover have "checkBackend (p (URL (heap w ! b))) b w = Inr w"
    using checkBackend_eq [OF assms, of "p (URL (heap w ! b))"] True by simp
  ultimately show ?thesis using True by simp
next
  case False
  then show ?thesis
    using checkBackend_eq [OF assms, of "p (URL (heap w ! b))"] by simp
qed

lemma checkHealth_loop_result:
  assumes "\<forall>b \<in> set bs. b < length (heap w)"
  shows "checkHealth_loop p bs w =
           Inr (w\<lparr>heap := map (\<lambda>a. if a \<in> set bs
                                   then (heap w ! a)\<lparr>Alive := p (URL (heap w ! a))\<rparr>
                                   else heap w ! a) [0..<length (heap w)],
                  trace := trace w @ concat (map
                    (\<lambda>b. if p (URL (heap w ! b)) = Alive (heap w ! b) then []
                         else [if p (URL (heap w ! b)) then LogRecovered (URL (heap w ! b))
                               else LogFailedHealthCheck (URL (heap w ! b)),
                               SetAliveCall b (p (URL (heap w ! b)))])
                    (first_occurrences bs))\<rparr>)"
  using assms
proof (induction bs arbitrary: w)
  case Nil
  have "map (\<lambda>a. heap w ! a) [0..<length (heap w)] = heap w"
    by (rule map_nth)
  then show ?case by simp
next
  case (Cons b bs)
  define ev where "ev = (\<lambda>(w::world) c. if p (URL (heap w ! c)) = Alive (heap w ! c) then []
                         else [if p (URL (heap w ! c)) then LogRecovered (URL (heap w ! c))
                               else LogFailedHealthCheck (URL (heap w ! c)),
                               SetAliveCall c (p (URL (heap w ! c)))])"
  define upd where "upd = (\<lambda>x::Backend. x\<lparr>Alive := p (URL x)\<rparr>)"
  define w1 where "w1 = w\<lparr>heap := (heap w)[b := upd (heap w ! b)], trace := trace w @ ev w b\<rparr>"
  from Cons.prems have alloc: "b < length (heap w)" by simp
  have step: "checkBackend (p (URL (heap w ! b))) b w = Inr w1"
    using checkBackend_uniform [OF alloc, of p] by (simp add: w1_def ev_def upd_def)
  have len1: "length (heap w1) = length (heap w)" by (simp add: w1_def)
  have alloc1: "\<forall>c \<in> set bs. c < length (heap w1)"
    using Cons.prems len1 by simp
  have rest: "checkHealth_loop p bs w1 =
           Inr (w1\<lparr>heap := map (\<lambda>a. if a \<in> set bs then upd (heap w1 ! a) else heap w1 ! a)
                              [0..<length (heap w1)],
                   trace := trace w1 @ concat (map (ev w1) (first_occurrences bs))\<rparr>)"
    using Cons.IH [OF alloc1] by (simp add: ev_def upd_def)
  have heap_eq: "map (\<lambda>a. if a \<in> set bs then upd (heap w1 ! a) else heap w1 ! a) [0..<length (heap w1)]
               = map (\<lambda>a. if a \<in> set (b # bs) then upd (heap w ! a) else heap w ! a) [0..<length (heap w)]"
  proof -
    have "(if a \<in> set bs then upd (heap w1 ! a) else heap w1 ! a)
          = (if a \<in> set (b # bs) then upd (heap w ! a) else heap w ! a)"
      if "a < length (heap w)" for a
      using that by (cases "a = b") (simp_all add: w1_def upd_def)
    then show ?thesis
      unfolding len1 by (intro map_cong) simp_all
  qed
  have ev_b: "ev w1 b = []"
    using alloc by (simp add: ev_def w1_def upd_def)
  have ev_other: "ev w1 c = ev w c" if "c \<noteq> b" for c
    using that by (simp add: ev_def w1_def)
  have "\<forall>c \<in> set (first_occurrences bs). (c \<noteq> b \<longrightarrow> ev w1 c = ev w c) \<and> (c = b \<longrightarrow> ev w1 c = [])"
    using ev_b ev_other by simp
  then have tr_eq: "concat (map (ev w1) (first_occurrences bs))
               = concat (map (ev w) (filter (\<lambda>c. c \<noteq> b) (first_occurrences bs)))"
    by (rule concat_map_skip)
  have "checkHealth_loop p (b # bs) w = checkHealth_loop p bs w1"
    using alloc step by (simp add: deref_ok)
  also have "\<dots> = Inr (w1\<lparr>heap := map (\<lambda>a. if a \<in> set (b # bs) then upd (heap w ! a) else heap w ! a)
                                     [0..<length (heap w)],
                          trace := trace w1 @ concat (map (ev w) (filter (\<lambda>c. c \<noteq> b) (first_occurrences bs)))\<rparr>)"
    unfolding rest heap_eq tr_eq ..
  also have "w1\<lparr>heap := map (\<lambda>a. if a \<in> set (b # bs) then upd (heap w ! a) else heap w ! a)
                                     [0..<length (heap w)],
                trace := trace w1 @ concat (map (ev w) (filter (\<lambda>c. c \<noteq> b) (first_occurrences bs)))\<rparr>
             = w\<lparr>heap := map (\<lambda>a. if a \<in> set (b # bs) then upd (heap w ! a) else heap w ! a)
                                     [0..<length (heap w)],
                 trace := trace w @ concat (map (ev w) (first_occurrences (b # bs)))\<rparr>"
    by (simp add: w1_def)
  finally show ?case
    by (simp add: ev_def upd_def)
qed

text \<open>
  C5. Transition detection in the health check. For a backend of the store and a probe
  result \<open>alive\<close>, the body of the loop of \<open>checkHealth\<close> behaves in one of two ways.
  If \<open>alive\<close> differs from the backend's liveness, it logs one notification
  ("recovered" when \<open>alive\<close> is true, "failed health check" otherwise) and calls
  \<open>SetAlive\<close> once, which stores \<open>alive\<close>. If they agree, the state after the body is
  the state before it: no call of \<open>SetAlive\<close>, no line logged.

  The whole pass \<open>checkHealth\<close>, on a pool without nil entries, returns normally with
  this state: every registered backend has the liveness its probe answered and every
  other backend is as before; the trace has gained, for each registered backend whose
  probe differed from its liveness and for no other, one notification followed by one
  call of \<open>SetAlive\<close> with the probe's answer, in the order of the registry (a backend
  registered more than once is written and announced where it occurs first; at its
  later occurrences the liveness already agrees). So a call of \<open>SetAlive\<close> on \<open>b\<close> is
  in the new part of the trace if and only if \<open>b\<close> is registered and its probe differs
  from its liveness, a "recovered" line for a URL if and only if a registered backend
  with that URL was DOWN and its probe succeeded, and a "failed health check" line if
  and only if one was UP and its probe failed. A second pass with the same probe
  outcomes changes nothing and logs nothing.
\<close>

theorem checkBackend_transition:
  "(backend < length (heap w) \<longrightarrow>
      checkBackend alive backend w =
        (if alive \<noteq> Alive (heap w ! backend) then
           Inr (w\<lparr>heap := (heap w)[backend := (heap w ! backend)\<lparr>Alive := alive\<rparr>],
                  trace := trace w @
                    [if alive then LogRecovered (URL (heap w ! backend))
                     else LogFailedHealthCheck (URL (heap w ! backend)),
                     SetAliveCall backend alive]\<rparr>)
         else Inr w))
   \<and> ((\<forall>b \<in> set (backends (spool w)). b < length (heap w)) \<longrightarrow>
        checkHealth isBackendAlive w =
          Inr (w\<lparr>heap := map (\<lambda>a. if a \<in> set (backends (spool w))
                                  then (heap w ! a)\<lparr>Alive := isBackendAlive (URL (heap w ! a))\<rparr>
                                  else heap w ! a) [0..<length (heap w)],
                 trace := trace w @ concat (map
                   (\<lambda>b. if isBackendAlive (URL (heap w ! b)) = Alive (heap w ! b) then []
                        else [if isBackendAlive (URL (heap w ! b))
                              then LogRecovered (URL (heap w ! b))
                              else LogFailedHealthCheck (URL (heap w ! b)),
                              SetAliveCall b (isBackendAlive (URL (heap w ! b)))])
                   (first_occurrences (backends (spool w))))\<rparr>)
        \<and> (\<exists>w1 evs. checkHealth isBackendAlive w = Inr w1
              \<and> checkHealth isBackendAlive w1 = Inr w1
              \<and> trace w1 = trace w @ evs
              \<and> (\<forall>b \<in> set (backends (spool w)).
                    Alive (heap w1 ! b) = isBackendAlive (URL (heap w ! b))
                    \<and> URL (heap w1 ! b) = URL (heap w ! b))
              \<and> (\<forall>b v. SetAliveCall b v \<in> set evs \<longleftrightarrow>
                    b \<in> set (backends (spool w)) \<and> v = isBackendAlive (URL (heap w ! b))
                    \<and> v \<noteq> Alive (heap w ! b))
              \<and> (\<forall>u. LogRecovered u \<in> set evs \<longleftrightarrow>
                    (\<exists>b \<in> set (backends (spool w)). URL (heap w ! b) = u
                       \<and> isBackendAlive u \<and> \<not> Alive (heap w ! b)))
              \<and> (\<forall>u. LogFailedHealthCheck u \<in> set evs \<longleftrightarrow>
                    (\<exists>b \<in> set (backends (spool w)). URL (heap w ! b) = u
                       \<and> \<not> isBackendAlive u \<and> Alive (heap w ! b)))))
   \<and> (distinct (backends (spool w)) \<longrightarrow>
        first_occurrences (backends (spool w)) = backends (spool w))"
proof -
  let ?bs = "backends (spool w)"
  let ?p = isBackendAlive
  let ?ev = "\<lambda>b. if ?p (URL (heap w ! b)) = Alive (heap w ! b) then []
                 else [if ?p (URL (heap w ! b)) then LogRecovered (URL (heap w ! b))
                       else LogFailedHealthCheck (URL (heap w ! b)),
                       SetAliveCall b (?p (URL (heap w ! b)))]"
  let ?evs = "concat (map ?ev (first_occurrences ?bs))"
  let ?h1 = "map (\<lambda>a. if a \<in> set ?bs then (heap w ! a)\<lparr>Alive := ?p (URL (heap w ! a))\<rparr>
                       else heap w ! a) [0..<length (heap w)]"
  let ?w1 = "w\<lparr>heap := ?h1, trace := trace w @ ?evs\<rparr>"
  have body: "backend < length (heap w) \<longrightarrow>
      checkBackend alive backend w =
        (if alive \<noteq> Alive (heap w ! backend) then
           Inr (w\<lparr>heap := (heap w)[backend := (heap w ! backend)\<lparr>Alive := alive\<rparr>],
                  trace := trace w @
                    [if alive then LogRecovered (URL (heap w ! backend))
                     else LogFailedHealthCheck (URL (heap w ! backend)),
                     SetAliveCall backend alive]\<rparr>)
         else Inr w)"
    using checkBackend_eq [of backend w alive] by blast
  have pass: "checkHealth ?p w = Inr ?w1
        \<and> (\<exists>w1 evs. checkHealth ?p w = Inr w1
              \<and> checkHealth ?p w1 = Inr w1
              \<and> trace w1 = trace w @ evs
              \<and> (\<forall>b \<in> set ?bs. Alive (heap w1 ! b) = ?p (URL (heap w ! b))
                                 \<and> URL (heap w1 ! b) = URL (heap w ! b))
              \<and> (\<forall>b v. SetAliveCall b v \<in> set evs \<longleftrightarrow>
                    b \<in> set ?bs \<and> v = ?p (URL (heap w ! b)) \<and> v \<noteq> Alive (heap w ! b))
              \<and> (\<forall>u. LogRecovered u \<in> set evs \<longleftrightarrow>
                    (\<exists>b \<in> set ?bs. URL (heap w ! b) = u \<and> ?p u \<and> \<not> Alive (heap w ! b)))
              \<and> (\<forall>u. LogFailedHealthCheck u \<in> set evs \<longleftrightarrow>
                    (\<exists>b \<in> set ?bs. URL (heap w ! b) = u \<and> \<not> ?p u \<and> Alive (heap w ! b))))"
    if alloc: "\<forall>b \<in> set ?bs. b < length (heap w)"
  proof -
    have run: "checkHealth ?p w = Inr ?w1"
      using checkHealth_loop_result [OF alloc, of ?p]
      by (simp add: checkHealth_def GetBackends_def)
    from checkHealth_twice [OF alloc, of ?p] run
    have again: "checkHealth ?p ?w1 = Inr ?w1"
      by auto
    have tr: "trace ?w1 = trace w @ ?evs" by simp
    have hp: "\<forall>b \<in> set ?bs. Alive (heap ?w1 ! b) = ?p (URL (heap w ! b))
                           \<and> URL (heap ?w1 ! b) = URL (heap w ! b)"
      using alloc by simp
    have e1: "\<forall>b v. SetAliveCall b v \<in> set ?evs \<longleftrightarrow>
                b \<in> set ?bs \<and> v = ?p (URL (heap w ! b)) \<and> v \<noteq> Alive (heap w ! b)"
      by (auto simp: set_first_occurrences split: if_splits)
    have e2: "\<forall>u. LogRecovered u \<in> set ?evs \<longleftrightarrow>
                (\<exists>b \<in> set ?bs. URL (heap w ! b) = u \<and> ?p u \<and> \<not> Alive (heap w ! b))"
      by (auto simp: set_first_occurrences split: if_splits)
    have e3: "\<forall>u. LogFailedHealthCheck u \<in> set ?evs \<longleftrightarrow>
                (\<exists>b \<in> set ?bs. URL (heap w ! b) = u \<and> \<not> ?p u \<and> Alive (heap w ! b))"
      by (auto simp: set_first_occurrences split: if_splits)
    from run again tr hp e1 e2 e3 show ?thesis
      by (intro conjI exI [of _ ?w1] exI [of _ ?evs])
  qed
  have dist: "distinct ?bs \<longrightarrow> first_occurrences ?bs = ?bs"
    using first_occurrences_distinct by blast
  from body pass dist show ?thesis
    by (intro conjI impI) blast+
qed

theorem checkBackend_transition_witness:
  "checkBackend True 1
     \<lparr>heap = [\<lparr>URL = ''http://localhost:8081'', Alive = True\<rparr>,
              \<lparr>URL = ''http://localhost:8082'', Alive = False\<rparr>],
      spool = \<lparr>backends = [0, 1], current = 0\<rparr>, trace = []\<rparr>
   = Inr \<lparr>heap = [\<lparr>URL = ''http://localhost:8081'', Alive = True\<rparr>,
                  \<lparr>URL = ''http://localhost:8082'', Alive = True\<rparr>],
          spool = \<lparr>backends = [0, 1], current = 0\<rparr>,
          trace = [LogRecovered ''http://localhost:8082'', SetAliveCall 1 True]\<rparr>
   \<and> checkBackend True 0
     \<lparr>heap = [\<lparr>URL = ''http://localhost:8081'', Alive = True\<rparr>,
              \<lparr>URL = ''http://localhost:8082'', Alive = False\<rparr>],
      spool = \<lparr>backends = [0, 1], current = 0\<rparr>, trace = []\<rparr>
   = Inr \<lparr>heap = [\<lparr>URL = ''http://localhost:8081'', Alive = True\<rparr>,
              \<lparr>URL = ''http://localhost:8082'', Alive = False\<rparr>],
      spool = \<lparr>backends = [0, 1], current = 0\<rparr>, trace = []\<rparr>
   \<and> distinct (backends (spool
     \<lparr>heap = [\<lparr>URL = ''http://localhost:8081'', Alive = True\<rparr>,
              \<lparr>URL = ''http://localhost:8082'', Alive = False\<rparr>],
      spool = \<lparr>backends = [0, 1], current = 0\<rparr>, trace = []\<rparr>))
   \<and> first_occurrences [0, 1] = [0, 1]
   \<and> checkHealth ((=) ''http://localhost:8082'')
     \<lparr>heap = [\<lparr>URL = ''http://localhost:8081'', Alive = True\<rparr>,
              \<lparr>URL = ''http://localhost:8082'', Alive = False\<rparr>],
      spool = \<lparr>backends = [0, 1], current = 0\<rparr>, trace = []\<rparr>
     = Inr \<lparr>heap = [\<lparr>URL = ''http://localhost:8081'', Alive = False\<rparr>,
              \<lparr>URL = ''http://localhost:8082'', Alive = True\<rparr>],
      spool = \<lparr>backends = [0, 1], current = 0\<rparr>,
      trace = [LogFailedHealthCheck ''http://localhost:8081'', SetAliveCall 0 False,
               LogRecovered ''http://localhost:8082'', SetAliveCall 1 True]\<rparr>
   \<and> checkHealth ((=) ''http://localhost:8082'')
     \<lparr>heap = [\<lparr>URL = ''http://localhost:8081'', Alive = False\<rparr>,
              \<lparr>URL = ''http://localhost:8082'', Alive = True\<rparr>],
      spool = \<lparr>backends = [0, 1], current = 0\<rparr>,
      trace = [LogFailedHealthCheck ''http://localhost:8081'', SetAliveCall 0 False,
               LogRecovered ''http://localhost:8082'', SetAliveCall 1 True]\<rparr>
     = Inr \<lparr>heap = [\<lparr>URL = ''http://localhost:8081'', Alive = False\<rparr>,
              \<lparr>URL = ''http://localhost:8082'', Alive = True\<rparr>],
      spool = \<lparr>backends = [0, 1], current = 0\<rparr>,
      trace = [LogFailedHealthCheck ''http://localhost:8081'', SetAliveCall 0 False,
               LogRecovered ''http://localhost:8082'', SetAliveCall 1 True]\<rparr>"
proof -
  let ?w = "\<lparr>heap = [\<lparr>URL = ''http://localhost:8081'', Alive = True\<rparr>,
              \<lparr>URL = ''http://localhost:8082'', Alive = False\<rparr>],
      spool = \<lparr>backends = [0, 1], current = 0\<rparr>, trace = []\<rparr>"
  let ?w1 = "\<lparr>heap = [\<lparr>URL = ''http://localhost:8081'', Alive = False\<rparr>,
              \<lparr>URL = ''http://localhost:8082'', Alive = True\<rparr>],
      spool = \<lparr>backends = [0, 1], current = 0\<rparr>,
      trace = [LogFailedHealthCheck ''http://localhost:8081'', SetAliveCall 0 False,
               LogRecovered ''http://localhost:8082'', SetAliveCall 1 True]\<rparr>"
  let ?p = "(=) ''http://localhost:8082''"
  have a1: "1 < length (heap ?w)" and a0: "0 < length (heap ?w)" by simp_all
  have all: "\<forall>b \<in> set (backends (spool ?w)). b < length (heap ?w)" by simp
  have dist: "distinct (backends (spool ?w))" by simp
  have one: "checkBackend True 1 ?w =
          Inr (?w\<lparr>heap := (heap ?w)[1 := (heap ?w ! 1)\<lparr>Alive := True\<rparr>],
                  trace := trace ?w @ [LogRecovered (URL (heap ?w ! 1)), SetAliveCall 1 True]\<rparr>)"
    using checkBackend_transition [of 1 ?w True, THEN conjunct1, THEN mp, OF a1] by simp
  have two: "checkBackend True 0 ?w = Inr ?w"
    using checkBackend_transition [of 0 ?w True, THEN conjunct1, THEN mp, OF a0] by simp
  note fo = checkBackend_transition [of _ ?w _ ?p, THEN conjunct2, THEN conjunct2, THEN mp, OF dist]
  note pass = checkBackend_transition [of _ ?w _ ?p, THEN conjunct2, THEN conjunct1, THEN mp, OF all]
  note run = pass [THEN conjunct1]
  from pass [THEN conjunct2]
  have fixp: "\<exists>w1. checkHealth ?p ?w = Inr w1 \<and> checkHealth ?p w1 = Inr w1"
    by (elim exE conjE) (rule exI, rule conjI, assumption+)
  have two_list: "[0..<2] = [0, Suc 0]"
    by (simp add: upt_conv_Cons)
  from run have run_val: "checkHealth ?p ?w = Inr ?w1"
    unfolding fo by (simp add: two_list)
  with fixp have again: "checkHealth ?p ?w1 = Inr ?w1"
    by auto
  from one two dist fo run_val again show ?thesis by simp
qed

subsection \<open>Passive health check and dispatch\<close>

lemma forwards_append: "forwards (xs @ ys) = forwards xs @ forwards ys"
  by (simp add: forwards_def)

lemma forwards_Exchange: "forwards (Exchange u # xs) = u # forwards xs"
  by (simp add: forwards_def)

lemma forwards_Nil: "forwards [] = []"
  by (simp add: forwards_def)

lemma RoundTrip_5xx:
  assumes "b < length (heap w)" and "net (URL (heap w ! b)) = Inr resp" and "500 \<le> StatusCode resp"
  shows "RoundTrip net b w =
           Inr (Inr resp,
                w\<lparr>heap := (heap w)[b := (heap w ! b)\<lparr>Alive := False\<rparr>],
                  trace := trace w @ [Exchange (URL (heap w ! b)),
                                      LogPassive5xx (URL (heap w ! b)) (StatusCode resp),
                                      SetAliveCall b False]\<rparr>)"
  using assms by (simp add: RoundTrip_def deref_def SetAlive_def emit_def Let_def)

lemma RoundTrip_error_alive:
  assumes "b < length (heap w)" and "Alive (heap w ! b)" and "net (URL (heap w ! b)) = Inl err"
  shows "RoundTrip net b w =
           Inr (Inl err,
                w\<lparr>heap := (heap w)[b := (heap w ! b)\<lparr>Alive := False\<rparr>],
                  trace := trace w @ [Exchange (URL (heap w ! b)),
                                      LogPassiveFailed (URL (heap w ! b)) err,
                                      SetAliveCall b False]\<rparr>)"
  using assms by (simp add: RoundTrip_def deref_def IsAlive_def SetAlive_def emit_def Let_def)

lemma handler_loop_forward:
  assumes "attempts < maxRetries" and "GetNextPeer w = Inr (Some peer, w1)"
  shows "handler_loop net attempts rw w =
           (case ServeHTTP net peer
                   (Header_Set ''X-Backend-Server'' (URL (heap w ! peer))
                      (Header_Set ''X-Forwarded-By'' ''Nexus'' rw))
                   (emit (LogForward (URL (heap w ! peer)) (Suc attempts)) w1) of
              Inl e \<Rightarrow> Inl e
            | Inr (rw2, w3) \<Rightarrow> Inr (rw2, Suc attempts, w3))"
proof -
  from GetNextPeer_Some_alive [OF assms(2)] have
    up: "IsAlive w peer = Inr True" and same: "heap w1 = heap w"
    by simp_all
  from up have alloc: "peer < length (heap w)" by (simp add: IsAlive_True_iff)
  have up1: "IsAlive w1 peer = Inr True"
    using up by (simp add: IsAlive_heap_cong [OF same])
  have d1: "deref w1 peer = Inr (heap w ! peer)"
    using alloc same by (simp add: deref_def)
  show ?thesis
    by (subst handler_loop.simps) (simp add: assms up1 d1 Let_def split: sum.splits)
qed

lemma handler_loop_all_down:
  assumes "pool_ok w" and "all_down w" and "attempts < maxRetries"
  shows "\<exists>w'. handler_loop net attempts rw w =
                 Inr (http_Error rw ''Service Unavailable'' 503, maxRetries, w')
           \<and> heap w' = heap w \<and> backends (spool w') = backends (spool w)
           \<and> trace w' = trace w @ [LogNoBackendAvailable]
           \<and> current (spool w') =
               (if backends (spool w) = [] then current (spool w)
                else current (spool w) + word_of_nat (maxRetries - attempts))"
  using assms
proof (induction n \<equiv> "maxRetries - attempts" arbitrary: attempts w)
  case 0
  then show ?case by simp
next
  case (Suc n)
  let ?w1 = "if backends (spool w) = [] then w
             else w\<lparr>spool := (spool w)\<lparr>current := current (spool w) + 1\<rparr>\<rparr>"
  have sel: "GetNextPeer w = Inr (None, ?w1)"
    using Suc.prems(1,2) by (intro GetNextPeer_all_down) (simp_all add: all_down_def)
  show ?case
  proof (cases "attempts + 1 < maxRetries")
    case True
    have n: "n = maxRetries - (attempts + 1)" using Suc.hyps(2) by simp
    have ok1: "pool_ok ?w1" using Suc.prems(1) by (simp add: pool_ok_def)
    have down1: "all_down ?w1" using Suc.prems(2) by (simp add: all_down_def)
    from Suc.hyps(1) [OF n ok1 down1 True] obtain w' where
      r: "handler_loop net (attempts + 1) rw ?w1 =
            Inr (http_Error rw ''Service Unavailable'' 503, maxRetries, w')"
         "heap w' = heap ?w1" "backends (spool w') = backends (spool ?w1)"
         "trace w' = trace ?w1 @ [LogNoBackendAvailable]"
         "current (spool w') =
            (if backends (spool ?w1) = [] then current (spool ?w1)
             else current (spool ?w1) + word_of_nat (maxRetries - (attempts + 1)))"
      by blast
    have "handler_loop net attempts rw w = handler_loop net (attempts + 1) rw ?w1"
      using Suc.prems(3) True by (subst handler_loop.simps) (simp add: sel)
    moreover have "(1 :: 64 word) + word_of_nat (maxRetries - (attempts + 1)) = word_of_nat (maxRetries - attempts)"
    proof -
      have "maxRetries - attempts = Suc (maxRetries - (attempts + 1))"
        using True by simp
      then show ?thesis by simp
    qed
    ultimately show ?thesis
      using r by (auto simp: add.assoc)
  next
    case False
    with Suc.prems(3) have last: "attempts + 1 = maxRetries" by simp
    have "handler_loop net attempts rw w =
            Inr (http_Error rw ''Service Unavailable'' 503, maxRetries, emit LogNoBackendAvailable ?w1)"
      using Suc.prems(3) False last by (subst handler_loop.simps) (simp add: sel)
    moreover have "maxRetries - attempts = 1" using last by simp
    ultimately show ?thesis
      by (simp add: emit_def)
  qed
qed

text \<open>
  C6. A response with status 500 or more. When the exchange with backend \<open>b\<close> completes
  with such a response, \<open>RoundTrip\<close> makes one exchange, logs it, calls
  \<open>SetAlive(false)\<close> on \<open>b\<close>, and returns the response itself with no error. When
  \<open>GetNextPeer\<close> selects \<open>peer\<close> and the server of \<open>peer\<close> answers with such a
  response, the handler ends in its first iteration: the client receives that status and
  body under the two dispatcher headers followed by the headers of the response, exactly
  one exchange was made, and \<open>peer\<close> is DOWN afterwards.
\<close>

theorem passive_5xx_delivered:
  "(b < length (heap w0) \<and> net (URL (heap w0 ! b)) = Inr resp \<and> 500 \<le> StatusCode resp \<longrightarrow>
      (\<exists>w'. RoundTrip net b w0 = Inr (Inr resp, w') \<and> IsAlive w' b = Inr False
             \<and> trace w' = trace w0 @ [Exchange (URL (heap w0 ! b)),
                                       LogPassive5xx (URL (heap w0 ! b)) (StatusCode resp),
                                       SetAliveCall b False]))
   \<and> (GetNextPeer w = Inr (Some peer, w1) \<and> net (URL (heap w ! peer)) = Inr resp
        \<and> 500 \<le> StatusCode resp \<longrightarrow>
      (\<exists>w'. handler net w =
               Inr (\<lparr>rw_header = [(''X-Forwarded-By'', ''Nexus''),
                                  (''X-Backend-Server'', URL (heap w ! peer))] @ Header resp,
                     rw_status = Some (StatusCode resp),
                     rw_body = Body resp\<rparr>, 1, w')
             \<and> forwards (trace w') = forwards (trace w) @ [URL (heap w ! peer)]
             \<and> IsAlive w' peer = Inr False))"
proof -
  have transport: "\<exists>w'. RoundTrip net b w0 = Inr (Inr resp, w') \<and> IsAlive w' b = Inr False
             \<and> trace w' = trace w0 @ [Exchange (URL (heap w0 ! b)),
                                       LogPassive5xx (URL (heap w0 ! b)) (StatusCode resp),
                                       SetAliveCall b False]"
    if "b < length (heap w0)" "net (URL (heap w0 ! b)) = Inr resp" "500 \<le> StatusCode resp"
    using that RoundTrip_5xx [of b w0 net resp] by (simp add: IsAlive_def deref_def)
  have dispatch: "\<exists>w'. handler net w =
               Inr (\<lparr>rw_header = [(''X-Forwarded-By'', ''Nexus''),
                                  (''X-Backend-Server'', URL (heap w ! peer))] @ Header resp,
                     rw_status = Some (StatusCode resp),
                     rw_body = Body resp\<rparr>, 1, w')
             \<and> forwards (trace w') = forwards (trace w) @ [URL (heap w ! peer)]
             \<and> IsAlive w' peer = Inr False"
    if sel: "GetNextPeer w = Inr (Some peer, w1)" and net: "net (URL (heap w ! peer)) = Inr resp"
      and code: "500 \<le> StatusCode resp"
  proof -
    from GetNextPeer_Some_alive [OF sel] have alloc: "peer < length (heap w)"
      by (simp add: IsAlive_True_iff)
    from GetNextPeer_trace [OF sel] have same: "trace w1 = trace w" "heap w1 = heap w"
      by simp_all
    let ?rw1 = "Header_Set ''X-Backend-Server'' (URL (heap w ! peer))
                  (Header_Set ''X-Forwarded-By'' ''Nexus''
                     \<lparr>rw_header = [], rw_status = None, rw_body = []\<rparr>)"
    let ?w2 = "emit (LogForward (URL (heap w ! peer)) (Suc 0)) w1"
    let ?w3 = "?w2\<lparr>heap := (heap ?w2)[peer := (heap ?w2 ! peer)\<lparr>Alive := False\<rparr>],
                  trace := trace ?w2 @ [Exchange (URL (heap ?w2 ! peer)),
                                      LogPassive5xx (URL (heap ?w2 ! peer)) (StatusCode resp),
                                      SetAliveCall peer False]\<rparr>"
    have alloc2: "peer < length (heap ?w2)" using alloc same by (simp add: emit_def)
    have net2: "net (URL (heap ?w2 ! peer)) = Inr resp" using net same by (simp add: emit_def)
    have rt: "RoundTrip net peer ?w2 = Inr (Inr resp, ?w3)"
      using alloc2 net2 code RoundTrip_5xx [of peer ?w2 net resp] by blast
    have sv: "ServeHTTP net peer ?rw1 ?w2 =
                Inr (?rw1\<lparr>rw_header := rw_header ?rw1 @ Header resp,
                          rw_status := Some (StatusCode resp),
                          rw_body := Body resp\<rparr>, ?w3)"
      unfolding ServeHTTP_def rt by simp
    have zero: "(0::nat) < maxRetries" by (simp add: maxRetries_def)
    have hl: "handler net w =
                Inr (?rw1\<lparr>rw_header := rw_header ?rw1 @ Header resp,
                          rw_status := Some (StatusCode resp),
                          rw_body := Body resp\<rparr>, Suc 0, ?w3)"
      unfolding handler_def handler_loop_forward [OF zero sel] sv by simp
    have rw: "?rw1\<lparr>rw_header := rw_header ?rw1 @ Header resp,
                   rw_status := Some (StatusCode resp),
                   rw_body := Body resp\<rparr>
              = \<lparr>rw_header = [(''X-Forwarded-By'', ''Nexus''),
                               (''X-Backend-Server'', URL (heap w ! peer))] @ Header resp,
                 rw_status = Some (StatusCode resp),
                 rw_body = Body resp\<rparr>"
      by (simp add: Header_Set_def)
    have fw: "forwards (trace ?w3) = forwards (trace w) @ [URL (heap w ! peer)]"
      using same by (simp add: emit_def forwards_def)
    have dn: "IsAlive ?w3 peer = Inr False"
      using alloc same by (simp add: emit_def IsAlive_def deref_def)
    show ?thesis
      using hl rw fw dn by (intro exI [of _ ?w3]) simp
  qed
  show ?thesis
    using transport dispatch by blast
qed

theorem passive_5xx_delivered_witness:
  "RoundTrip net_all_503 1
     \<lparr>heap = [\<lparr>URL = ''http://localhost:8081'', Alive = True\<rparr>,
              \<lparr>URL = ''http://localhost:8082'', Alive = True\<rparr>,
              \<lparr>URL = ''http://localhost:8083'', Alive = True\<rparr>],
      spool = \<lparr>backends = [0, 1, 2], current = 0\<rparr>, trace = []\<rparr>
   = Inr (Inr \<lparr>StatusCode = 503, Header = [(''Server'', ''backend'')], Body = ''busy''\<rparr>,
     \<lparr>heap = [\<lparr>URL = ''http://localhost:8081'', Alive = True\<rparr>,
              \<lparr>URL = ''http://localhost:8082'', Alive = False\<rparr>,
              \<lparr>URL = ''http://localhost:8083'', Alive = True\<rparr>],
      spool = \<lparr>backends = [0, 1, 2], current = 0\<rparr>,
      trace = [Exchange ''http://localhost:8082'', LogPassive5xx ''http://localhost:8082'' 503,
               SetAliveCall 1 False]\<rparr>)
   \<and> (\<exists>w'. handler net_all_503
     \<lparr>heap = [\<lparr>URL = ''http://localhost:8081'', Alive = True\<rparr>,
              \<lparr>URL = ''http://localhost:8082'', Alive = True\<rparr>,
              \<lparr>URL = ''http://localhost:8083'', Alive = True\<rparr>],
      spool = \<lparr>backends = [0, 1, 2], current = 0\<rparr>, trace = []\<rparr>
     = Inr (\<lparr>rw_header = [(''X-Forwarded-By'', ''Nexus''),
                          (''X-Backend-Server'', ''http://localhost:8082''),
                          (''Server'', ''backend'')],
             rw_status = Some 503, rw_body = ''busy''\<rparr>, 1, w')
       \<and> forwards (trace w') = [''http://localhost:8082'']
       \<and> IsAlive w' 1 = Inr False)"
proof -
  let ?w = "\<lparr>heap = [\<lparr>URL = ''http://localhost:8081'', Alive = True\<rparr>,
              \<lparr>URL = ''http://localhost:8082'', Alive = True\<rparr>,
              \<lparr>URL = ''http://localhost:8083'', Alive = True\<rparr>],
      spool = \<lparr>backends = [0, 1, 2], current = 0\<rparr>, trace = []\<rparr>"
  let ?w1 = "\<lparr>heap = [\<lparr>URL = ''http://localhost:8081'', Alive = True\<rparr>,
              \<lparr>URL = ''http://localhost:8082'', Alive = True\<rparr>,
              \<lparr>URL = ''http://localhost:8083'', Alive = True\<rparr>],
      spool = \<lparr>backends = [0, 1, 2], current = 1\<rparr>, trace = []\<rparr>"
  let ?resp = "\<lparr>StatusCode = 503, Header = [(''Server'', ''backend'')], Body = ''busy''\<rparr>"
  have alloc: "1 < length (heap ?w)" by simp
  have sel: "GetNextPeer ?w = Inr (Some 1, ?w1)"
    by code_simp
  have net: "net_all_503 (URL (heap ?w ! 1)) = Inr ?resp"
    by (simp add: net_all_503_def)
  have code: "500 \<le> StatusCode ?resp"
    by simp
  from passive_5xx_delivered [of 1 ?w net_all_503 ?resp] alloc net code
  obtain w' where rt: "RoundTrip net_all_503 1 ?w = Inr (Inr ?resp, w')"
    and tr: "trace w' = trace ?w @ [Exchange (URL (heap ?w ! 1)),
                                   LogPassive5xx (URL (heap ?w ! 1)) (StatusCode ?resp),
                                   SetAliveCall 1 False]"
    by blast
  have rt_val: "RoundTrip net_all_503 1 ?w
   = Inr (Inr ?resp,
     \<lparr>heap = [\<lparr>URL = ''http://localhost:8081'', Alive = True\<rparr>,
              \<lparr>URL = ''http://localhost:8082'', Alive = False\<rparr>,
              \<lparr>URL = ''http://localhost:8083'', Alive = True\<rparr>],
      spool = \<lparr>backends = [0, 1, 2], current = 0\<rparr>,
      trace = [Exchange ''http://localhost:8082'', LogPassive5xx ''http://localhost:8082'' 503,
               SetAliveCall 1 False]\<rparr>)"
    by code_simp
  from passive_5xx_delivered [of _ _ net_all_503 ?resp ?w 1 ?w1] sel net code
  have "\<exists>w'. handler net_all_503 ?w
     = Inr (\<lparr>rw_header = [(''X-Forwarded-By'', ''Nexus''),
                          (''X-Backend-Server'', ''http://localhost:8082''),
                          (''Server'', ''backend'')],
             rw_status = Some 503, rw_body = ''busy''\<rparr>, 1, w')
       \<and> forwards (trace w') = [''http://localhost:8082'']
       \<and> IsAlive w' 1 = Inr False"
    by (simp add: forwards_def)
  with rt_val rt show ?thesis by blast
qed

text \<open>
  C7. Dispatch with every backend DOWN. On a well-formed pool whose backends are all
  DOWN (three of them or any other number), the handler answers 503 Service
  Unavailable after \<open>maxRetries = 3\<close> calls of \<open>GetNextPeer\<close>, each of which returned
  no backend (and, the pool not being empty, advanced the cursor by one), and it asks no
  backend for an exchange: the trace gains the single line "NO BACKEND AVAILABLE" and
  the store is unchanged.
\<close>

theorem handler_all_down:
  assumes "pool_ok w" and "all_down w"
  shows "\<exists>w'. handler net w =
                 Inr (http_Error \<lparr>rw_header = [], rw_status = None, rw_body = []\<rparr>
                        ''Service Unavailable'' 503, 3, w')
           \<and> rw_status (http_Error \<lparr>rw_header = [], rw_status = None, rw_body = []\<rparr>
                        ''Service Unavailable'' 503) = Some 503
           \<and> forwards (trace w') = forwards (trace w)
           \<and> trace w' = trace w @ [LogNoBackendAvailable]
           \<and> heap w' = heap w
           \<and> (backends (spool w) \<noteq> [] \<longrightarrow> current (spool w') = current (spool w) + 3)"
proof -
  have zero: "(0::nat) < maxRetries" by (simp add: maxRetries_def)
  from handler_loop_all_down [OF assms zero, of net "\<lparr>rw_header = [], rw_status = None, rw_body = []\<rparr>"]
  obtain w' where
    r: "handler_loop net 0 \<lparr>rw_header = [], rw_status = None, rw_body = []\<rparr> w =
          Inr (http_Error \<lparr>rw_header = [], rw_status = None, rw_body = []\<rparr>
                 ''Service Unavailable'' 503, maxRetries, w')"
       "heap w' = heap w" "trace w' = trace w @ [LogNoBackendAvailable]"
       "current (spool w') =
               (if backends (spool w) = [] then current (spool w)
                else current (spool w) + word_of_nat (maxRetries - 0))"
    by blast
  have "forwards (trace w') = forwards (trace w)"
    using r(3) by (simp add: forwards_def)
  then show ?thesis
    using r by (simp add: handler_def maxRetries_def http_Error_def Header_Set_def)
qed

theorem handler_all_down_witness:
  "\<exists>w'. handler net_8082_refused
     \<lparr>heap = [\<lparr>URL = ''http://localhost:8081'', Alive = False\<rparr>,
              \<lparr>URL = ''http://localhost:8082'', Alive = False\<rparr>,
              \<lparr>URL = ''http://localhost:8083'', Alive = False\<rparr>],
      spool = \<lparr>backends = [0, 1, 2], current = 0\<rparr>, trace = []\<rparr>
    = Inr (\<lparr>rw_header = [(''Content-Type'', ''text/plain; charset=utf-8''),
                         (''X-Content-Type-Options'', ''nosniff'')],
            rw_status = Some 503,
            rw_body = ''Service Unavailable'' @ [CHR 0x0A]\<rparr>, 3, w')
      \<and> forwards (trace w') = []
      \<and> current (spool w') = 3"
proof -
  let ?w = "\<lparr>heap = [\<lparr>URL = ''http://localhost:8081'', Alive = False\<rparr>,
              \<lparr>URL = ''http://localhost:8082'', Alive = False\<rparr>,
              \<lparr>URL = ''http://localhost:8083'', Alive = False\<rparr>],
      spool = \<lparr>backends = [0, 1, 2], current = 0\<rparr>, trace = []\<rparr>"
  have ok: "pool_ok ?w" by (simp add: pool_ok_def)
  have down: "all_down ?w" by (simp add: all_down_def)
  from handler_all_down [OF ok down, of net_8082_refused]
  show ?thesis
    by (auto simp: http_Error_def Header_Set_def forwards_Nil)
qed

text \<open>
  A transport error in general: whenever \<open>GetNextPeer\<close> selects \<open>peer\<close> and the
  exchange with its server fails, the handler ends in its first iteration with one
  exchange made, status 502 written and \<open>peer\<close> marked DOWN.
\<close>

lemma handler_transport_error:
  assumes sel: "GetNextPeer w = Inr (Some peer, w1)"
    and net: "net (URL (heap w ! peer)) = Inl err"
  shows "\<exists>w'. handler net w =
               Inr (\<lparr>rw_header = [(''X-Forwarded-By'', ''Nexus''),
                                  (''X-Backend-Server'', URL (heap w ! peer))],
                     rw_status = Some 502, rw_body = []\<rparr>, 1, w')
          \<and> forwards (trace w') = forwards (trace w) @ [URL (heap w ! peer)]
          \<and> IsAlive w' peer = Inr False"
proof -
  from GetNextPeer_Some_alive [OF sel] have alloc: "peer < length (heap w)"
    and up: "Alive (heap w ! peer)"
    by (simp_all add: IsAlive_True_iff)
  from GetNextPeer_trace [OF sel] have same: "trace w1 = trace w" "heap w1 = heap w"
    by simp_all
  let ?rw1 = "Header_Set ''X-Backend-Server'' (URL (heap w ! peer))
                (Header_Set ''X-Forwarded-By'' ''Nexus''
                   \<lparr>rw_header = [], rw_status = None, rw_body = []\<rparr>)"
  let ?w2 = "emit (LogForward (URL (heap w ! peer)) (Suc 0)) w1"
  let ?w3 = "?w2\<lparr>heap := (heap ?w2)[peer := (heap ?w2 ! peer)\<lparr>Alive := False\<rparr>],
                trace := trace ?w2 @ [Exchange (URL (heap ?w2 ! peer)),
                                    LogPassiveFailed (URL (heap ?w2 ! peer)) err,
                                    SetAliveCall peer False]\<rparr>"
  have alloc2: "peer < length (heap ?w2)" using alloc same by (simp add: emit_def)
  have up2: "Alive (heap ?w2 ! peer)" using up same by (simp add: emit_def)
  have net2: "net (URL (heap ?w2 ! peer)) = Inl err" using net same by (simp add: emit_def)
  have rt: "RoundTrip net peer ?w2 = Inr (Inl err, ?w3)"
    using alloc2 up2 net2 RoundTrip_error_alive [of peer ?w2 net err] by blast
  have sv: "ServeHTTP net peer ?rw1 ?w2 =
              Inr (?rw1\<lparr>rw_status := Some 502\<rparr>, emit (LogProxyError err) ?w3)"
    unfolding ServeHTTP_def rt by simp
  have zero: "(0::nat) < maxRetries" by (simp add: maxRetries_def)
  have hl: "handler net w = Inr (?rw1\<lparr>rw_status := Some 502\<rparr>, Suc 0, emit (LogProxyError err) ?w3)"
    unfolding handler_def handler_loop_forward [OF zero sel] sv by simp
  have rw: "?rw1\<lparr>rw_status := Some 502\<rparr>
            = \<lparr>rw_header = [(''X-Forwarded-By'', ''Nexus''),
                             (''X-Backend-Server'', URL (heap w ! peer))],
               rw_status = Some 502, rw_body = []\<rparr>"
    by (simp add: Header_Set_def)
  have fw: "forwards (trace (emit (LogProxyError err) ?w3)) = forwards (trace w) @ [URL (heap w ! peer)]"
    using same by (simp add: emit_def forwards_def)
  have dn: "IsAlive (emit (LogProxyError err) ?w3) peer = Inr False"
    using alloc same by (simp add: emit_def IsAlive_def deref_def)
  show ?thesis
    using hl rw fw dn by (intro exI [of _ "emit (LogProxyError err) ?w3"]) simp
qed

text \<open>
  C1. What the handler does when the transport fails. Three backends, all alive,
  cursor at 0; the server at port 8082, the first one selected, refuses the connection,
  the other two would answer 200. The handler asks for one exchange only, with 8082:
  the passive check marks that backend DOWN, the reverse proxy answers the client with
  502 Bad Gateway under the headers naming 8082, and the handler returns with
  \<open>attempts = 1\<close>. No second backend is tried.
\<close>

theorem handler_transport_error_no_retry:
  "handler net_8082_refused
     \<lparr>heap = [\<lparr>URL = ''http://localhost:8081'', Alive = True\<rparr>,
              \<lparr>URL = ''http://localhost:8082'', Alive = True\<rparr>,
              \<lparr>URL = ''http://localhost:8083'', Alive = True\<rparr>],
      spool = \<lparr>backends = [0, 1, 2], current = 0\<rparr>, trace = []\<rparr>
   = Inr (\<lparr>rw_header = [(''X-Forwarded-By'', ''Nexus''),
                        (''X-Backend-Server'', ''http://localhost:8082'')],
           rw_status = Some 502, rw_body = []\<rparr>,
          1,
          \<lparr>heap = [\<lparr>URL = ''http://localhost:8081'', Alive = True\<rparr>,
                   \<lparr>URL = ''http://localhost:8082'', Alive = False\<rparr>,
                   \<lparr>URL = ''http://localhost:8083'', Alive = True\<rparr>],
           spool = \<lparr>backends = [0, 1, 2], current = 1\<rparr>,
           trace = [LogForward ''http://localhost:8082'' 1,
                    Exchange ''http://localhost:8082'',
                    LogPassiveFailed ''http://localhost:8082'' ConnectionRefused,
                    SetAliveCall 1 False,
                    LogProxyError ConnectionRefused]\<rparr>)"
  by code_simp

end
